theory Spec2Isabelle
  imports Complex_Main
begin

section \<open>The WebSocket clients of the licence-plate recognition agent\<close>

text \<open>
  This development embeds \<^verbatim>\<open>python_examples/advanced_ai_server.py\<close> (class
  \<^verbatim>\<open>WebSocketClient\<close>) and the \<^verbatim>\<open>disconnect\<close> method of
  \<^verbatim>\<open>python_examples/simple_client.py\<close> (class \<^verbatim>\<open>SimpleLicensePlateClient\<close>).

  The asynchronous methods are embedded as sequential programs over an explicit world:
  the client object, counters of the calls made to the transport, and the chronological
  trace of everything the method did to the outside (transport calls, sleeps, log records).
  What the outside answers (whether a connection attempt is accepted, whether a write
  succeeds, what the JSON library returns, what the clock shows) is a parameter of every
  method, the environment. The codec of the specification is defined on its own, and
  \<open>json_library\<close> makes it the JSON library of an environment. A Python exception is a value: every program returns either
  \<open>Inl e\<close> (the exception \<open>e\<close> leaves the method) or \<open>Inr v\<close> (it returns \<open>v\<close>).
\<close>

subsection \<open>Values, exceptions, effects\<close>

text \<open>
  What \<^verbatim>\<open>json.loads\<close> returns and \<^verbatim>\<open>json.dumps\<close> takes. A Python float is
  represented by the decimal number that \<^verbatim>\<open>repr\<close> prints for it: \<open>JFloat m s\<close> is
  \<open>m / 10 ^ s\<close>, written with \<open>s\<close> digits after the point (0.95 is \<open>JFloat 95 2\<close>, 1.0 is
  \<open>JFloat 10 1\<close>). The client never computes with one.
\<close>

datatype json =
    JNull
  | JBool bool
  | JInt int
  | JFloat int nat
  | JStr string
  | JList "json list"
  | JDict "(string \<times> json) list"

text \<open>The exceptions the methods can meet; all of them are subclasses of \<^verbatim>\<open>Exception\<close>.\<close>

datatype exn =
    ConnectionClosed
  | OSError
  | JSONDecodeError
  | AttributeError
  | TypeError

datatype level = DEBUG | INFO | WARNING | ERROR

text \<open>One constructor for each call of \<^verbatim>\<open>logger\<close> in the class, with the values it formats.\<close>

datatype log_msg =
    Connecting string
  | Connected_successfully
  | Connection_failed exn
  | Not_connected_attempting_to_reconnect
  | Sent_message_type string
  | Send_error exn
  | Received_command "json option"
  | Invalid_JSON_received exn
  | Connection_closed_by_server
  | Listen_error exn
  | Handling_command "json option"
  | Disconnected_from_server
  | Attempting_to_reconnect int int int
  | Max_reconnection_attempts_reached

datatype effect =
    Log level log_msg
  | WsConnect string
  | WsSend nat string
  | WsClose nat
  | Sleep int

subsection \<open>The objects\<close>

text \<open>
  A connection object of the \<^verbatim>\<open>websockets\<close> library: the number of the
  \<^verbatim>\<open>websockets.connect\<close> call that made it, and its \<^verbatim>\<open>closed\<close> attribute.
\<close>

record websocket_obj =
  conn_id :: nat
  closed :: bool

text \<open>The attributes \<^verbatim>\<open>WebSocketClient.__init__\<close> sets; \<open>None\<close> is Python's \<^verbatim>\<open>None\<close>.\<close>

record client =
  server_url :: string
  websocket :: "websocket_obj option"
  running :: bool
  reconnect_attempts :: int
  max_reconnect_attempts :: int
  reconnect_delay :: int

definition init :: "string \<Rightarrow> client" where
  "init url = \<lparr>server_url = url, websocket = None, running = False,
     reconnect_attempts = 0, max_reconnect_attempts = 10, reconnect_delay = 5\<rparr>"

text \<open>
  The world of a run: the object \<^verbatim>\<open>self\<close>, how many times
  \<^verbatim>\<open>websockets.connect\<close>, \<^verbatim>\<open>websocket.send\<close> and \<^verbatim>\<open>datetime.now\<close> have been
  called, and the trace of effects, oldest first.
\<close>

record 'c world =
  self :: 'c
  n_connect :: nat
  n_send :: nat
  n_now :: nat
  trace :: "effect list"

text \<open>
  The environment: the outcome of the \<open>n\<close>-th call of \<^verbatim>\<open>websockets.connect\<close> and of
  \<^verbatim>\<open>websocket.send\<close> on an open connection (\<open>None\<close>: it succeeds, \<open>Some e\<close>: it
  raises \<open>e\<close>), the two functions of the \<^verbatim>\<open>json\<close> module, and the text of
  \<^verbatim>\<open>datetime.now().isoformat()\<close> at its \<open>n\<close>-th call.
\<close>

record env =
  ws_connect :: "nat \<Rightarrow> exn option"
  ws_send :: "nat \<Rightarrow> exn option"
  json_dumps :: "json \<Rightarrow> exn + string"
  json_loads :: "string \<Rightarrow> exn + json"
  now_isoformat :: "nat \<Rightarrow> string"

subsection \<open>Programs with state and exceptions\<close>

type_synonym ('c, 'a) prog = "'c world \<Rightarrow> (exn + 'a) \<times> 'c world"

definition ret :: "'a \<Rightarrow> ('c, 'a) prog" where
  "ret v w = (Inr v, w)"

definition raise :: "exn \<Rightarrow> ('c, 'a) prog" where
  "raise e w = (Inl e, w)"

text \<open>Sequencing: an exception of the first program skips the second.\<close>

definition bnd :: "('c, 'a) prog \<Rightarrow> ('a \<Rightarrow> ('c, 'b) prog) \<Rightarrow> ('c, 'b) prog" where
  "bnd m f w = (case m w of (Inl e, w') \<Rightarrow> (Inl e, w') | (Inr v, w') \<Rightarrow> f v w')"

text \<open>
  \<^verbatim>\<open>try: body except C as e: handler\<close>, where \<open>catches e\<close> says whether \<open>e\<close> is an
  instance of the class \<^verbatim>\<open>C\<close>.
\<close>

definition try_except :: "('c, 'a) prog \<Rightarrow> (exn \<Rightarrow> bool) \<Rightarrow> (exn \<Rightarrow> ('c, 'a) prog) \<Rightarrow> ('c, 'a) prog" where
  "try_except body catches handler w =
     (case body w of
        (Inl e, w') \<Rightarrow> if catches e then handler e w' else (Inl e, w')
      | (Inr v, w') \<Rightarrow> (Inr v, w'))"

definition Exception :: "exn \<Rightarrow> bool" where
  "Exception e = True"

definition emit :: "effect \<Rightarrow> ('c, unit) prog" where
  "emit x w = (Inr (), w\<lparr>trace := trace w @ [x]\<rparr>)"

definition logger :: "level \<Rightarrow> log_msg \<Rightarrow> ('c, unit) prog" where
  "logger l m = emit (Log l m)"

definition get_self :: "('c, 'c) prog" where
  "get_self w = (Inr (self w), w)"

definition set_self :: "('c \<Rightarrow> 'c) \<Rightarrow> ('c, unit) prog" where
  "set_self f w = (Inr (), w\<lparr>self := f (self w)\<rparr>)"

subsection \<open>The library calls\<close>

text \<open>
  \<^verbatim>\<open>websockets.connect(url, ...)\<close>: the call is recorded and counted; the environment
  decides whether it raises or returns a new, open connection.
\<close>

definition websockets_connect :: "env \<Rightarrow> string \<Rightarrow> ('c, websocket_obj) prog" where
  "websockets_connect E url w =
     (let n = n_connect w;
          w' = w\<lparr>n_connect := Suc n, trace := trace w @ [WsConnect url]\<rparr>
      in case ws_connect E n of
           Some e \<Rightarrow> (Inl e, w')
         | None \<Rightarrow> (Inr \<lparr>conn_id = n, closed = False\<rparr>, w'))"

text \<open>
  \<^verbatim>\<open>self.websocket.send(text)\<close>: on \<^verbatim>\<open>None\<close> the attribute lookup raises
  \<^verbatim>\<open>AttributeError\<close>; a closed connection raises \<^verbatim>\<open>ConnectionClosed\<close>; on an open
  one the call is counted and the environment decides.
\<close>

definition websocket_send :: "env \<Rightarrow> string \<Rightarrow> (client, unit) prog" where
  "websocket_send E text w =
     (case websocket (self w) of
        None \<Rightarrow> (Inl AttributeError, w)
      | Some ws \<Rightarrow>
          if closed ws then (Inl ConnectionClosed, w)
          else (case ws_send E (n_send w) of
                  Some e \<Rightarrow> (Inl e, w\<lparr>n_send := Suc (n_send w)\<rparr>)
                | None \<Rightarrow> (Inr (), w\<lparr>n_send := Suc (n_send w),
                                       trace := trace w @ [WsSend (conn_id ws) text]\<rparr>)))"

text \<open>\<^verbatim>\<open>datetime.now().isoformat()\<close>.\<close>

definition datetime_now_isoformat :: "env \<Rightarrow> ('c, string) prog" where
  "datetime_now_isoformat E w = (Inr (now_isoformat E (n_now w)), w\<lparr>n_now := Suc (n_now w)\<rparr>)"

text \<open>\<^verbatim>\<open>json.dumps(message)\<close>.\<close>

definition dumps :: "env \<Rightarrow> json \<Rightarrow> ('c, string) prog" where
  "dumps E v w = (case json_dumps E v of Inl e \<Rightarrow> (Inl e, w) | Inr s \<Rightarrow> (Inr s, w))"



subsection \<open>\<^verbatim>\<open>WebSocketClient\<close>\<close>

text \<open>The condition \<^verbatim>\<open>not self.websocket or self.websocket.closed\<close>.\<close>

definition not_connected :: "client \<Rightarrow> bool" where
  "not_connected c = (case websocket c of None \<Rightarrow> True | Some ws \<Rightarrow> closed ws)"

definition connect :: "env \<Rightarrow> (client, bool) prog" where
  "connect E =
     try_except
       (bnd get_self (\<lambda>c.
        bnd (logger INFO (Connecting (server_url c))) (\<lambda>_.
        bnd (websockets_connect E (server_url c)) (\<lambda>ws.
        bnd (set_self (\<lambda>c. c\<lparr>websocket := Some ws\<rparr>)) (\<lambda>_.
        bnd (set_self (\<lambda>c. c\<lparr>running := True\<rparr>)) (\<lambda>_.
        bnd (set_self (\<lambda>c. c\<lparr>reconnect_attempts := 0\<rparr>)) (\<lambda>_.
        bnd (logger INFO Connected_successfully) (\<lambda>_.
        ret True))))))))
       Exception
       (\<lambda>e. bnd (logger ERROR (Connection_failed e)) (\<lambda>_. ret False))"

text \<open>
  The dictionary \<^verbatim>\<open>{"type": message_type, "data": data, "timestamp": ...}\<close> that
  \<^verbatim>\<open>send_message\<close> builds.
\<close>

definition envelope :: "string \<Rightarrow> json \<Rightarrow> string \<Rightarrow> json" where
  "envelope message_type data ts =
     JDict [(''type'', JStr message_type), (''data'', data), (''timestamp'', JStr ts)]"

definition send_message :: "env \<Rightarrow> string \<Rightarrow> json \<Rightarrow> (client, bool) prog" where
  "send_message E message_type data =
     bnd get_self (\<lambda>c.
     bnd (if not_connected c
          then bnd (logger WARNING Not_connected_attempting_to_reconnect) (\<lambda>_. connect E)
          else ret True) (\<lambda>go.
     if \<not> go then ret False
     else
       bnd (datetime_now_isoformat E) (\<lambda>ts.
       let message = envelope message_type data ts in
       try_except
         (bnd (dumps E message) (\<lambda>text.
          bnd (websocket_send E text) (\<lambda>_.
          bnd (logger DEBUG (Sent_message_type message_type)) (\<lambda>_.
          ret True))))
         Exception
         (\<lambda>e. bnd (logger ERROR (Send_error e)) (\<lambda>_. ret False)))))"


definition send_processing_status :: "env \<Rightarrow> json \<Rightarrow> (client, bool) prog" where
  "send_processing_status E status_data = send_message E ''processing_status'' status_data"

definition send_error :: "env \<Rightarrow> json \<Rightarrow> (client, bool) prog" where
  "send_error E error_data = send_message E ''error'' error_data"








text \<open>
  \<^verbatim>\<open>self.websocket.close()\<close>: the call is recorded and the connection is closed
  afterwards; on a connection that is closed already the library does nothing more.
\<close>

definition websocket_close :: "(client, unit) prog" where
  "websocket_close w =
     (case websocket (self w) of
        None \<Rightarrow> (Inl AttributeError, w)
      | Some ws \<Rightarrow>
          (Inr (), w\<lparr>self := (self w)\<lparr>websocket := Some (ws\<lparr>closed := True\<rparr>)\<rparr>,
                     trace := trace w @ [WsClose (conn_id ws)]\<rparr>))"

definition disconnect :: "(client, unit) prog" where
  "disconnect =
     bnd (set_self (\<lambda>c. c\<lparr>running := False\<rparr>)) (\<lambda>_.
     bnd get_self (\<lambda>c.
     if (case websocket c of None \<Rightarrow> False | Some ws \<Rightarrow> \<not> closed ws)
     then bnd websocket_close (\<lambda>_. logger INFO Disconnected_from_server)
     else ret ()))"

text \<open>\<^verbatim>\<open>asyncio.sleep(delay)\<close>.\<close>

definition asyncio_sleep :: "int \<Rightarrow> ('c, unit) prog" where
  "asyncio_sleep delay = emit (Sleep delay)"

definition reconnect :: "env \<Rightarrow> (client, bool) prog" where
  "reconnect E =
     bnd get_self (\<lambda>c.
     if reconnect_attempts c < max_reconnect_attempts c
     then
       bnd (set_self (\<lambda>c. c\<lparr>reconnect_attempts := reconnect_attempts c + 1\<rparr>)) (\<lambda>_.
       bnd get_self (\<lambda>c.
       let delay = reconnect_delay c * reconnect_attempts c in
       bnd (logger INFO (Attempting_to_reconnect (reconnect_attempts c) (max_reconnect_attempts c) delay)) (\<lambda>_.
       bnd (asyncio_sleep delay) (\<lambda>_.
       connect E))))
     else
       bnd (logger ERROR Max_reconnection_attempts_reached) (\<lambda>_. ret False))"

subsection \<open>\<^verbatim>\<open>SimpleLicensePlateClient.disconnect\<close>\<close>

text \<open>
  The attributes of the simple client that \<^verbatim>\<open>disconnect\<close> reads; the class has no
  \<^verbatim>\<open>running\<close> flag and no reconnection counter.
\<close>

record simple_client =
  backend_url :: string
  simple_websocket :: "websocket_obj option"

definition simple_websocket_close :: "(simple_client, unit) prog" where
  "simple_websocket_close w =
     (case simple_websocket (self w) of
        None \<Rightarrow> (Inl AttributeError, w)
      | Some ws \<Rightarrow>
          (Inr (), w\<lparr>self := (self w)\<lparr>simple_websocket := Some (ws\<lparr>closed := True\<rparr>)\<rparr>,
                     trace := trace w @ [WsClose (conn_id ws)]\<rparr>))"

definition simple_disconnect :: "(simple_client, unit) prog" where
  "simple_disconnect =
     bnd get_self (\<lambda>c.
     if simple_websocket c \<noteq> None
     then bnd simple_websocket_close (\<lambda>_. logger INFO Disconnected_from_server)
     else ret ())"

text \<open>Whether the connection of a simple client is absent or closed.\<close>

definition simple_not_connected :: "simple_client \<Rightarrow> bool" where
  "simple_not_connected c = (case simple_websocket c of None \<Rightarrow> True | Some ws \<Rightarrow> closed ws)"

subsection \<open>Sequences of calls, and what a trace holds\<close>

text \<open>
  No method of the file calls \<^verbatim>\<open>reconnect\<close>; a caller that retries is the sequence of
  \<open>n\<close> calls of it, one after the other.
\<close>

fun reconnect_calls :: "env \<Rightarrow> nat \<Rightarrow> client world \<Rightarrow> client world" where
  "reconnect_calls E 0 w = w"
| "reconnect_calls E (Suc n) w = reconnect_calls E n (snd (reconnect E w))"

text \<open>The delays of the \<^verbatim>\<open>asyncio.sleep\<close> calls in a trace, in order.\<close>

fun sleeps :: "effect list \<Rightarrow> int list" where
  "sleeps [] = []"
| "sleeps (Sleep d # xs) = d # sleeps xs"
| "sleeps (_ # xs) = sleeps xs"

text \<open>The effects in a trace other than log records: transport calls and sleeps.\<close>

fun actions :: "effect list \<Rightarrow> effect list" where
  "actions [] = []"
| "actions (Log l m # xs) = actions xs"
| "actions (x # xs) = x # actions xs"

subsection \<open>The codec\<close>

text \<open>
  Modelled from the spec: the message codec (\<open>encode\<close>, \<open>decode\<close> of section 4.1 and the
  wire format of section 6). The source has no codec of its own; it calls
  \<^verbatim>\<open>json.dumps\<close> and \<^verbatim>\<open>json.loads\<close> of the Python library, which are not part of the
  repository. The definitions below follow the specification (a pure structural
  serialisation to a text format, one object per frame, a decoder that rejects malformed
  syntax and accepts any well-formed value) and, for the concrete text, the documentation
  of the \<^verbatim>\<open>json\<close> module with its default settings: items separated by a comma and a
  space, keys by a colon and a space, characters outside the printable ASCII range escaped.

  Strings are lists of characters with codes below 256. A float is the decimal number
  \<open>m / 10 ^ s\<close> that \<^verbatim>\<open>repr\<close> prints for it, held as \<open>JFloat m s\<close> with \<open>s\<close> digits after
  the point, and it is written in positional notation (Python switches to an exponent
  for very large and very small magnitudes; the decoder reads both notations). The
  values that are not numbers, \<^verbatim>\<open>NaN\<close> and the infinities, have no place in the model.
\<close>

definition dquote :: char where
  "dquote = CHR 0x22"

definition backslash :: char where
  "backslash = CHR 0x5C"

definition digit_char :: "nat \<Rightarrow> char" where
  "digit_char d = char_of (48 + d)"

definition is_digit :: "char \<Rightarrow> bool" where
  "is_digit c = (48 \<le> (of_char c :: nat) \<and> (of_char c :: nat) \<le> 57)"

definition digit_val :: "char \<Rightarrow> nat" where
  "digit_val c = of_char c - 48"

text \<open>The decimal digits of a natural number, without leading zeros.\<close>

fun digits :: "nat \<Rightarrow> string" where
  "digits n = (if n < 10 then [digit_char n] else digits (n div 10) @ [digit_char (n mod 10)])"

text \<open>The last \<open>s\<close> decimal digits of a number, with leading zeros.\<close>

fun frac_digits :: "nat \<Rightarrow> nat \<Rightarrow> string" where
  "frac_digits 0 k = []"
| "frac_digits (Suc s) k = frac_digits s (k div 10) @ [digit_char (k mod 10)]"

definition nat_of_digits :: "string \<Rightarrow> nat" where
  "nat_of_digits ds = foldl (\<lambda>a c. 10 * a + digit_val c) 0 ds"

definition encode_int :: "int \<Rightarrow> string" where
  "encode_int i = (if i < 0 then CHR ''-'' # digits (nat (- i)) else digits (nat i))"

definition encode_float :: "int \<Rightarrow> nat \<Rightarrow> string" where
  "encode_float m s =
     (if m < 0 then [CHR ''-''] else []) @ digits (nat \<bar>m\<bar> div 10 ^ s) @
     CHR ''.'' # (if s = 0 then [CHR ''0''] else frac_digits s (nat \<bar>m\<bar> mod 10 ^ s))"

definition hex_char :: "nat \<Rightarrow> char" where
  "hex_char d = (if d < 10 then char_of (48 + d) else char_of (87 + d))"

definition hex_val :: "char \<Rightarrow> nat option" where
  "hex_val c =
     (let n = (of_char c :: nat) in
      if 48 \<le> n \<and> n \<le> 57 then Some (n - 48)
      else if 97 \<le> n \<and> n \<le> 102 then Some (n - 87)
      else if 65 \<le> n \<and> n \<le> 70 then Some (n - 55)
      else None)"

text \<open>
  How a character is written inside a string: the quote and the backslash are escaped,
  the control characters that have a short escape use it, every other character outside
  the printable ASCII range is written as \<^verbatim>\<open>\u00XX\<close>.
\<close>

definition escape_char :: "char \<Rightarrow> string" where
  "escape_char c =
     (if c = dquote then [backslash, dquote]
      else if c = backslash then [backslash, backslash]
      else if c = CHR 0x0A then [backslash, CHR ''n'']
      else if c = CHR 0x0D then [backslash, CHR ''r'']
      else if c = CHR 0x09 then [backslash, CHR ''t'']
      else if c = CHR 0x08 then [backslash, CHR ''b'']
      else if c = CHR 0x0C then [backslash, CHR ''f'']
      else if (of_char c :: nat) < 32 \<or> 126 < (of_char c :: nat)
      then [backslash, CHR ''u'', CHR ''0'', CHR ''0'',
            hex_char ((of_char c :: nat) div 16), hex_char ((of_char c :: nat) mod 16)]
      else [c])"

definition encode_string :: "string \<Rightarrow> string" where
  "encode_string s = dquote # concat (map escape_char s) @ [dquote]"

text \<open>The character a short escape stands for.\<close>

definition unescape :: "char \<Rightarrow> char option" where
  "unescape e =
     (if e = dquote then Some dquote
      else if e = backslash then Some backslash
      else if e = CHR ''/'' then Some (CHR ''/'')
      else if e = CHR ''n'' then Some (CHR 0x0A)
      else if e = CHR ''r'' then Some (CHR 0x0D)
      else if e = CHR ''t'' then Some (CHR 0x09)
      else if e = CHR ''b'' then Some (CHR 0x08)
      else if e = CHR ''f'' then Some (CHR 0x0C)
      else None)"

text \<open>
  The rest of a string after its opening quote: the characters up to the closing quote,
  and what follows it. A raw control character, an unknown escape and a code of 256 or
  more are refused.
\<close>

fun parse_string :: "string \<Rightarrow> (string \<times> string) option" where
  "parse_string [] = None"
| "parse_string (c # cs) =
     (if c = dquote then Some ([], cs)
      else if c = backslash then
        (case cs of
           [] \<Rightarrow> None
         | e # r \<Rightarrow>
             if e = CHR ''u'' then
               (case r of
                  h1 # h2 # h3 # h4 # r' \<Rightarrow>
                    (case (hex_val h1, hex_val h2, hex_val h3, hex_val h4) of
                       (Some a, Some b, Some c', Some d) \<Rightarrow>
                         (let n = ((a * 16 + b) * 16 + c') * 16 + d in
                          if n < 256
                          then map_option (\<lambda>(s, r''). (char_of n # s, r'')) (parse_string r')
                          else None)
                     | _ \<Rightarrow> None)
                | _ \<Rightarrow> None)
             else
               (case unescape e of
                  None \<Rightarrow> None
                | Some x \<Rightarrow> map_option (\<lambda>(s, r'). (x # s, r')) (parse_string r)))
      else if (of_char c :: nat) < 32 then None
      else map_option (\<lambda>(s, r). (c # s, r)) (parse_string cs))"
text \<open>The fraction of a number, if it has one: a point and at least one digit.\<close>

definition parse_frac :: "string \<Rightarrow> (string option \<times> string) option" where
  "parse_frac cs =
     (case cs of
        [] \<Rightarrow> Some (None, [])
      | c # r \<Rightarrow>
          if c = CHR ''.''
          then (if takeWhile is_digit r = [] then None
                else Some (Some (takeWhile is_digit r), dropWhile is_digit r))
          else Some (None, cs))"

text \<open>The exponent of a number, if it has one: \<^verbatim>\<open>e\<close> or \<^verbatim>\<open>E\<close>, a sign, at least one digit.\<close>

definition parse_sign :: "string \<Rightarrow> bool \<times> string" where
  "parse_sign cs =
     (case cs of
        [] \<Rightarrow> (False, [])
      | c # r \<Rightarrow> if c = CHR ''-'' then (True, r) else if c = CHR ''+'' then (False, r) else (False, cs))"

definition parse_exp :: "string \<Rightarrow> (int option \<times> string) option" where
  "parse_exp cs =
     (case cs of
        [] \<Rightarrow> Some (None, [])
      | c # r \<Rightarrow>
          if c = CHR ''e'' \<or> c = CHR ''E''
          then (let ds = takeWhile is_digit (snd (parse_sign r)) in
                if ds = [] then None
                else Some (Some (if fst (parse_sign r) then - int (nat_of_digits ds)
                                 else int (nat_of_digits ds)),
                           dropWhile is_digit (snd (parse_sign r))))
          else Some (None, cs))"

text \<open>
  The float \<open>m / 10 ^ s\<close> in the form in which it is held: at least one digit after the
  point, and no zero at the end of a longer fraction.
\<close>

fun strip_zeros :: "nat \<Rightarrow> int \<Rightarrow> int \<times> nat" where
  "strip_zeros (Suc (Suc s)) m =
     (if m mod 10 = 0 then strip_zeros (Suc s) (m div 10) else (m, Suc (Suc s)))"
| "strip_zeros s m = (m, s)"

text \<open>The float \<open>m * 10 ^ e / 10 ^ s\<close>.\<close>

definition make_float :: "int \<Rightarrow> nat \<Rightarrow> int \<Rightarrow> json" where
  "make_float m s e =
     (let m1 = (if e < 0 then m else m * 10 ^ nat e);
          s1 = (if e < 0 then s + nat (- e) else s);
          m2 = (if s1 = 0 then m1 * 10 else m1);
          s2 = (if s1 = 0 then 1 else s1)
      in JFloat (fst (strip_zeros s2 m2)) (snd (strip_zeros s2 m2)))"

text \<open>
  A number: an optional minus sign, digits without a leading zero, an optional fraction,
  an optional exponent. Without fraction and exponent it is an integer, otherwise a float.
\<close>

definition parse_number :: "string \<Rightarrow> (json \<times> string) option" where
  "parse_number cs =
     (let neg = (case cs of [] \<Rightarrow> False | c # r \<Rightarrow> c = CHR ''-'');
          cs1 = (if neg then tl cs else cs);
          ip = takeWhile is_digit cs1
      in if ip = [] \<or> (1 < length ip \<and> hd ip = CHR ''0'') then None
         else
           (case parse_frac (dropWhile is_digit cs1) of
              None \<Rightarrow> None
            | Some (fr, cs3) \<Rightarrow>
                (case parse_exp cs3 of
                   None \<Rightarrow> None
                 | Some (ex, cs4) \<Rightarrow>
                     if fr = None \<and> ex = None
                     then Some (JInt (if neg then - int (nat_of_digits ip) else int (nat_of_digits ip)), cs4)
                     else
                       (let fs = (case fr of None \<Rightarrow> [] | Some ds \<Rightarrow> ds);
                            m = int (nat_of_digits (ip @ fs))
                        in Some (make_float (if neg then - m else m) (length fs)
                                   (case ex of None \<Rightarrow> 0 | Some e \<Rightarrow> e), cs4)))))"

text \<open>What may follow a value inside a text: nothing, a comma, or a closing bracket.\<close>

definition follow_ok :: "string \<Rightarrow> bool" where
  "follow_ok rest =
     (case rest of [] \<Rightarrow> True | c # r \<Rightarrow> c = CHR '','' \<or> c = CHR '']'' \<or> c = CHR ''}'')"
definition is_ws :: "char \<Rightarrow> bool" where
  "is_ws c = (c = CHR '' '' \<or> c = CHR 0x09 \<or> c = CHR 0x0A \<or> c = CHR 0x0D)"

definition skip_ws :: "string \<Rightarrow> string" where
  "skip_ws cs = dropWhile is_ws cs"

definition parse_literal :: "string \<Rightarrow> json \<Rightarrow> string \<Rightarrow> (json \<times> string) option" where
  "parse_literal lit v cs =
     (if take (length lit) cs = lit then Some (v, drop (length lit) cs) else None)"

text \<open>
  The dictionary built from the members of an object in the order they are read: a key
  that comes again replaces the value and keeps the place of its first occurrence.
\<close>

fun dict_set :: "(string \<times> json) list \<Rightarrow> string \<Rightarrow> json \<Rightarrow> (string \<times> json) list" where
  "dict_set [] k v = [(k, v)]"
| "dict_set (kv # d) k v = (if fst kv = k then (k, v) # d else kv # dict_set d k v)"

definition dict_of_pairs :: "(string \<times> json) list \<Rightarrow> (string \<times> json) list" where
  "dict_of_pairs kvs = foldl (\<lambda>d kv. dict_set d (fst kv) (snd kv)) [] kvs"

text \<open>
  The parser of values. Its first argument bounds the depth of the calls; every call reads
  at least one character before the next, so the length of the text is always enough
  (\<open>decode\<close> below). \<open>parse_elements\<close> reads the items of an array after its opening
  bracket up to the closing one, \<open>parse_members\<close> the members of an object.
\<close>

fun parse_value :: "nat \<Rightarrow> string \<Rightarrow> (json \<times> string) option"
  and parse_elements :: "nat \<Rightarrow> string \<Rightarrow> (json list \<times> string) option"
  and parse_members :: "nat \<Rightarrow> string \<Rightarrow> ((string \<times> json) list \<times> string) option" where
  "parse_value 0 cs = None"
| "parse_value (Suc n) cs =
     (case skip_ws cs of
        [] \<Rightarrow> None
      | c # r \<Rightarrow>
          if c = dquote then map_option (\<lambda>sr. (JStr (fst sr), snd sr)) (parse_string r)
          else if c = CHR ''['' then
            (case skip_ws r of
               [] \<Rightarrow> None
             | d # r' \<Rightarrow>
                 if d = CHR '']'' then Some (JList [], r')
                 else map_option (\<lambda>vr. (JList (fst vr), snd vr)) (parse_elements n r))
          else if c = CHR ''{'' then
            (case skip_ws r of
               [] \<Rightarrow> None
             | d # r' \<Rightarrow>
                 if d = CHR ''}'' then Some (JDict [], r')
                 else map_option (\<lambda>mr. (JDict (dict_of_pairs (fst mr)), snd mr)) (parse_members n r))
          else if c = CHR ''t'' then parse_literal ''true'' (JBool True) (c # r)
          else if c = CHR ''f'' then parse_literal ''false'' (JBool False) (c # r)
          else if c = CHR ''n'' then parse_literal ''null'' JNull (c # r)
          else parse_number (c # r))"
| "parse_elements 0 cs = None"
| "parse_elements (Suc n) cs =
     (case parse_value n cs of
        None \<Rightarrow> None
      | Some (v, r) \<Rightarrow>
          (case skip_ws r of
             [] \<Rightarrow> None
           | c # r' \<Rightarrow>
               if c = CHR '','' then map_option (\<lambda>vr. (v # fst vr, snd vr)) (parse_elements n r')
               else if c = CHR '']'' then Some ([v], r')
               else None))"
| "parse_members 0 cs = None"
| "parse_members (Suc n) cs =
     (case skip_ws cs of
        [] \<Rightarrow> None
      | q # r \<Rightarrow>
          if q \<noteq> dquote then None
          else
            (case parse_string r of
               None \<Rightarrow> None
             | Some (k, r1) \<Rightarrow>
                 (case skip_ws r1 of
                    [] \<Rightarrow> None
                  | c # r2 \<Rightarrow>
                      if c \<noteq> CHR '':'' then None
                      else
                        (case parse_value n r2 of
                           None \<Rightarrow> None
                         | Some (v, r3) \<Rightarrow>
                             (case skip_ws r3 of
                                [] \<Rightarrow> None
                              | d # r4 \<Rightarrow>
                                  if d = CHR '','' then
                                    map_option (\<lambda>mr. ((k, v) # fst mr, snd mr)) (parse_members n r4)
                                  else if d = CHR ''}'' then Some ([(k, v)], r4)
                                  else None)))))"

text \<open>
  Modelled from the spec: \<open>decode\<close> of section 4.1, for which the source calls
  \<^verbatim>\<open>json.loads\<close>. The text must hold one value and nothing but white space after it;
  anything else is malformed and gives the error that \<^verbatim>\<open>json.loads\<close> raises.
\<close>

definition decode :: "string \<Rightarrow> exn + json" where
  "decode s =
     (case parse_value (Suc (length s)) s of
        None \<Rightarrow> Inl JSONDecodeError
      | Some (v, r) \<Rightarrow> if skip_ws r = [] then Inr v else Inl JSONDecodeError)"

text \<open>The texts of the items, separated by a comma and a space.\<close>

fun join :: "string list \<Rightarrow> string" where
  "join [] = []"
| "join [x] = x"
| "join (x # y # ys) = x @ '', '' @ join (y # ys)"

definition encode_member :: "string \<Rightarrow> string \<Rightarrow> string" where
  "encode_member k text = encode_string k @ '': '' @ text"

text \<open>
  Modelled from the spec: \<open>encode\<close> of section 4.1, for which the source calls
  \<^verbatim>\<open>json.dumps\<close>. It is total: every value has a text.
\<close>

fun encode :: "json \<Rightarrow> string" where
  "encode JNull = ''null''"
| "encode (JBool b) = (if b then ''true'' else ''false'')"
| "encode (JInt i) = encode_int i"
| "encode (JFloat m s) = encode_float m s"
| "encode (JStr s) = encode_string s"
| "encode (JList vs) = CHR ''['' # join (map encode vs) @ '']''"
| "encode (JDict kvs) = CHR ''{'' # join (map (\<lambda>kv. encode_member (fst kv) (encode (snd kv))) kvs) @ ''}''"

text \<open>
  The values that stand for a Python object: a float is held with at least one digit
  after the point and without a zero at the end of a longer fraction, and the keys of a
  dictionary are distinct.
\<close>

fun valid_json :: "json \<Rightarrow> bool" where
  "valid_json (JFloat m s) = (0 < s \<and> (s = 1 \<or> m mod 10 \<noteq> 0))"
| "valid_json (JList vs) = list_all valid_json vs"
| "valid_json (JDict kvs) = (distinct (map fst kvs) \<and> list_all (\<lambda>kv. valid_json (snd kv)) kvs)"
| "valid_json v = True"



subsection \<open>Sample environments and worlds\<close>

text \<open>
  Concrete inputs on which the theorems below are exercised: a JSON decoder that knows two
  frames, transports that refuse every connection, accept every connection, or refuse the
  first two attempts; a client that has just been constructed, one that is connected, and
  one whose limit of attempts is three; a detection payload with a confidence of 1.5; and
  a simple client with and without a connection.
\<close>

definition sample_loads :: "string \<Rightarrow> exn + json" where
  \<open>sample_loads s =
     (if s = ''{"type": "ping"}'' then Inr (JDict [(''type'', JStr ''ping'')])
      else if s = ''[]'' then Inr (JList [])
      else Inl JSONDecodeError)\<close>

definition env_refusing :: env where
  "env_refusing = \<lparr>ws_connect = (\<lambda>n. Some OSError), ws_send = (\<lambda>n. Some ConnectionClosed),
     json_dumps = (\<lambda>v. Inr ''{}''), json_loads = sample_loads,
     now_isoformat = (\<lambda>n. ''2024-01-01T00:00:00'')\<rparr>"

definition env_accepting :: env where
  "env_accepting = \<lparr>ws_connect = (\<lambda>n. None), ws_send = (\<lambda>n. None),
     json_dumps = (\<lambda>v. Inr ''{}''), json_loads = sample_loads,
     now_isoformat = (\<lambda>n. ''2024-01-01T00:00:00'')\<rparr>"

definition env_third_time :: env where
  "env_third_time = \<lparr>ws_connect = (\<lambda>n. if n < 2 then Some OSError else None), ws_send = (\<lambda>n. None),
     json_dumps = (\<lambda>v. Inr ''{}''), json_loads = sample_loads,
     now_isoformat = (\<lambda>n. ''2024-01-01T00:00:00'')\<rparr>"

definition fresh :: "client world" where
  "fresh = \<lparr>self = init ''ws://localhost:3001'', n_connect = 0, n_send = 0, n_now = 0, trace = []\<rparr>"

definition linked :: "client world" where
  "linked = \<lparr>self = (init ''ws://localhost:3001'')
                \<lparr>websocket := Some \<lparr>conn_id = 0, closed = False\<rparr>, running := True\<rparr>,
              n_connect = 1, n_send = 0, n_now = 0, trace = []\<rparr>"

definition fresh3 :: "client world" where
  "fresh3 = fresh\<lparr>self := (self fresh)\<lparr>max_reconnect_attempts := 3\<rparr>\<rparr>"

definition sample_detection :: "(string \<times> json) list" where
  "sample_detection = [(''licensePlate'', JStr ''29A-123.45''), (''confidence'', JFloat 15 1),
     (''gateId'', JStr ''GATE_001''), (''action'', JStr ''entry'')]"

definition simple_linked :: "simple_client world" where
  "simple_linked = \<lparr>self = \<lparr>backend_url = ''ws://localhost:3001'',
                             simple_websocket = Some \<lparr>conn_id = 0, closed = False\<rparr>\<rparr>,
                     n_connect = 1, n_send = 0, n_now = 0, trace = []\<rparr>"

definition simple_fresh :: "simple_client world" where
  "simple_fresh = \<lparr>self = \<lparr>backend_url = ''ws://localhost:3001'', simple_websocket = None\<rparr>,
                    n_connect = 0, n_send = 0, n_now = 0, trace = []\<rparr>"

section \<open>Properties\<close>

subsection \<open>Auxiliary facts\<close>

lemmas prog_defs = ret_def raise_def bnd_def try_except_def Exception_def emit_def logger_def
  get_self_def set_self_def asyncio_sleep_def

lemma sleeps_append: "sleeps (xs @ ys) = sleeps xs @ sleeps ys"
  by (induction xs rule: sleeps.induct) simp_all

lemma actions_append: "actions (xs @ ys) = actions xs @ actions ys"
  by (induction xs rule: actions.induct) simp_all

lemma connect_raises:
  assumes "ws_connect E (n_connect w) = Some e"
  shows "connect E w = (Inr False,
           w\<lparr>n_connect := Suc (n_connect w),
             trace := trace w @ [Log INFO (Connecting (server_url (self w))),
                                 WsConnect (server_url (self w)),
                                 Log ERROR (Connection_failed e)]\<rparr>)"
  using assms by (simp add: connect_def websockets_connect_def prog_defs Let_def)

lemma connect_accepted:
  assumes "ws_connect E (n_connect w) = None"
  shows "connect E w = (Inr True,
           w\<lparr>self := (self w)\<lparr>websocket := Some \<lparr>conn_id = n_connect w, closed = False\<rparr>,
                              running := True, reconnect_attempts := 0\<rparr>,
             n_connect := Suc (n_connect w),
             trace := trace w @ [Log INFO (Connecting (server_url (self w))),
                                 WsConnect (server_url (self w)),
                                 Log INFO Connected_successfully]\<rparr>)"
  using assms by (simp add: connect_def websockets_connect_def prog_defs Let_def)

lemma connect_returns: "\<exists>b. fst (connect E w) = Inr b"
  by (cases "ws_connect E (n_connect w)") (auto simp add: connect_raises connect_accepted)

text \<open>\<^verbatim>\<open>send_message\<close> on an open connection, and on an absent or closed one.\<close>

lemma send_message_connected:
  assumes "\<not> not_connected (self w)"
  shows "send_message E t d w =
     (case json_dumps E (envelope t d (now_isoformat E (n_now w))) of
        Inl e \<Rightarrow> (Inr False, w\<lparr>n_now := Suc (n_now w), trace := trace w @ [Log ERROR (Send_error e)]\<rparr>)
      | Inr txt \<Rightarrow>
          (case ws_send E (n_send w) of
             Some e \<Rightarrow> (Inr False, w\<lparr>n_send := Suc (n_send w), n_now := Suc (n_now w),
                                       trace := trace w @ [Log ERROR (Send_error e)]\<rparr>)
           | None \<Rightarrow> (Inr True, w\<lparr>n_send := Suc (n_send w), n_now := Suc (n_now w),
                          trace := trace w @ [WsSend (conn_id (the (websocket (self w)))) txt,
                                              Log DEBUG (Sent_message_type t)]\<rparr>)))"
  using assms
  by (auto simp add: send_message_def not_connected_def websocket_send_def dumps_def
      datetime_now_isoformat_def prog_defs Let_def split: option.splits sum.splits)

lemma send_message_not_connected_eq:
  assumes "not_connected (self w)"
  shows "send_message E t d w =
     (case connect E (w\<lparr>trace := trace w @ [Log WARNING Not_connected_attempting_to_reconnect]\<rparr>) of
        (Inr True, w1) \<Rightarrow> send_message E t d w1
      | (_, w1) \<Rightarrow> (Inr False, w1))"
proof (cases "ws_connect E (n_connect w)")
  case None
  show ?thesis using assms
    by (simp add: connect_accepted None send_message_def not_connected_def prog_defs)
next
  case (Some e)
  show ?thesis using assms
    by (simp add: connect_raises Some send_message_def not_connected_def prog_defs)
qed

lemma send_message_returns: "\<exists>b. fst (send_message E t d w) = Inr b"
proof (cases "not_connected (self w)")
  case False
  then show ?thesis
    by (auto simp add: send_message_connected split: sum.splits option.splits)
next
  case True
  show ?thesis
  proof (cases "ws_connect E (n_connect w)")
    case None
    have nc: "\<not> not_connected (self (snd (connect E (w\<lparr>trace := trace w @ [Log WARNING Not_connected_attempting_to_reconnect]\<rparr>))))"
      by (simp add: connect_accepted None not_connected_def)
    show ?thesis
      using nc
      by (auto simp add: send_message_not_connected_eq [OF True] connect_accepted None send_message_connected
            split: sum.splits option.splits)
  next
    case (Some e)
    then show ?thesis
      by (auto simp add: send_message_not_connected_eq [OF True] connect_raises)
  qed
qed

text \<open>\<^verbatim>\<open>reconnect\<close>: below the limit, at the limit, and a run of failed attempts.\<close>

lemma reconnect_attempt:
  assumes "reconnect_attempts (self w) < max_reconnect_attempts (self w)"
  shows "reconnect E w =
     connect E (w\<lparr>self := (self w)\<lparr>reconnect_attempts := reconnect_attempts (self w) + 1\<rparr>,
                  trace := trace w @
                    [Log INFO (Attempting_to_reconnect (reconnect_attempts (self w) + 1)
                       (max_reconnect_attempts (self w))
                       (reconnect_delay (self w) * (reconnect_attempts (self w) + 1))),
                     Sleep (reconnect_delay (self w) * (reconnect_attempts (self w) + 1))]\<rparr>)"
  using assms by (simp add: reconnect_def prog_defs Let_def)

lemma reconnect_exhausted:
  assumes "\<not> reconnect_attempts (self w) < max_reconnect_attempts (self w)"
  shows "reconnect E w =
     (Inr False, w\<lparr>trace := trace w @ [Log ERROR Max_reconnection_attempts_reached]\<rparr>)"
  using assms by (simp add: reconnect_def prog_defs)

lemma reconnect_failed:
  assumes "reconnect_attempts (self w) < max_reconnect_attempts (self w)"
    and "ws_connect E (n_connect w) = Some e"
  shows "reconnect E w =
     (Inr False,
      w\<lparr>self := (self w)\<lparr>reconnect_attempts := reconnect_attempts (self w) + 1\<rparr>,
        n_connect := Suc (n_connect w),
        trace := trace w @
          [Log INFO (Attempting_to_reconnect (reconnect_attempts (self w) + 1)
             (max_reconnect_attempts (self w))
             (reconnect_delay (self w) * (reconnect_attempts (self w) + 1))),
           Sleep (reconnect_delay (self w) * (reconnect_attempts (self w) + 1)),
           Log INFO (Connecting (server_url (self w))),
           WsConnect (server_url (self w)),
           Log ERROR (Connection_failed e)]\<rparr>)"
  using assms by (simp add: reconnect_attempt connect_raises)

lemma reconnect_calls_failed:
  assumes "reconnect_attempts (self w) + int k \<le> max_reconnect_attempts (self w)"
    and "\<forall>i<k. ws_connect E (n_connect w + i) \<noteq> None"
  shows "self (reconnect_calls E k w) = (self w)\<lparr>reconnect_attempts := reconnect_attempts (self w) + int k\<rparr>
       \<and> n_connect (reconnect_calls E k w) = n_connect w + k
       \<and> sleeps (trace (reconnect_calls E k w)) =
           sleeps (trace w) @ map (\<lambda>i. reconnect_delay (self w) * (reconnect_attempts (self w) + int i + 1)) [0..<k]"
  using assms
proof (induction k arbitrary: w)
  case 0
  then show ?case by simp
next
  case (Suc k)
  from Suc.prems(2) obtain e where e: "ws_connect E (n_connect w) = Some e"
    by (metis add.right_neutral not_None_eq zero_less_Suc)
  have lt: "reconnect_attempts (self w) < max_reconnect_attempts (self w)"
    using Suc.prems(1) by simp
  let ?w1 = "snd (reconnect E w)"
  have w1: "self ?w1 = (self w)\<lparr>reconnect_attempts := reconnect_attempts (self w) + 1\<rparr>"
    "n_connect ?w1 = Suc (n_connect w)"
    "sleeps (trace ?w1) = sleeps (trace w) @ [reconnect_delay (self w) * (reconnect_attempts (self w) + 1)]"
    by (simp_all add: reconnect_failed [OF lt e] sleeps_append)
  have p1: "reconnect_attempts (self ?w1) + int k \<le> max_reconnect_attempts (self ?w1)"
    using Suc.prems(1) by (simp add: w1)
  have p2: "\<forall>i<k. ws_connect E (n_connect ?w1 + i) \<noteq> None"
    using Suc.prems(2) by (simp add: w1) (metis Suc_less_eq add_Suc_right)
  have m: "map (\<lambda>i. reconnect_delay (self w) * (reconnect_attempts (self w) + int i + 1)) [0..<Suc k]
      = (reconnect_delay (self w) * (reconnect_attempts (self w) + 1)) #
        map (\<lambda>i. reconnect_delay (self w) * (reconnect_attempts (self w) + 1 + int i + 1)) [0..<k]"
  proof -
    have "[0..<Suc k] = 0 # map Suc [0..<k]"
      by (simp add: upt_conv_Cons map_Suc_upt del: upt_Suc)
    then show ?thesis
      by (simp add: comp_def algebra_simps del: upt_Suc)
  qed
  show ?case
    using Suc.IH [OF p1 p2] by (simp add: w1 m del: upt_Suc)
qed

text \<open>Once the limit is reached, further calls of \<^verbatim>\<open>reconnect\<close> change nothing but the log.\<close>

lemma reconnect_calls_exhausted:
  assumes "\<not> reconnect_attempts (self w) < max_reconnect_attempts (self w)"
  shows "self (reconnect_calls E m w) = self w
       \<and> n_connect (reconnect_calls E m w) = n_connect w
       \<and> actions (trace (reconnect_calls E m w)) = actions (trace w)"
  using assms
proof (induction m arbitrary: w)
  case 0
  then show ?case by simp
next
  case (Suc m)
  let ?w1 = "snd (reconnect E w)"
  have w1: "self ?w1 = self w" "n_connect ?w1 = n_connect w" "actions (trace ?w1) = actions (trace w)"
    by (simp_all add: reconnect_exhausted [OF Suc.prems] actions_append)
  have "\<not> reconnect_attempts (self ?w1) < max_reconnect_attempts (self ?w1)"
    using Suc.prems by (simp add: w1)
  from Suc.IH [OF this] show ?case
    by (simp add: w1)
qed

lemma reconnect_calls_add:
  "reconnect_calls E (m + n) w = reconnect_calls E n (reconnect_calls E m w)"
  by (induction m arbitrary: w) simp_all

lemma reconnect_succeeded:
  assumes "reconnect_attempts (self w) < max_reconnect_attempts (self w)"
    and "ws_connect E (n_connect w) = None"
  shows "reconnect E w =
     (Inr True,
      w\<lparr>self := (self w)\<lparr>websocket := Some \<lparr>conn_id = n_connect w, closed = False\<rparr>,
                         running := True, reconnect_attempts := 0\<rparr>,
        n_connect := Suc (n_connect w),
        trace := trace w @
          [Log INFO (Attempting_to_reconnect (reconnect_attempts (self w) + 1)
             (max_reconnect_attempts (self w))
             (reconnect_delay (self w) * (reconnect_attempts (self w) + 1))),
           Sleep (reconnect_delay (self w) * (reconnect_attempts (self w) + 1)),
           Log INFO (Connecting (server_url (self w))),
           WsConnect (server_url (self w)),
           Log INFO Connected_successfully]\<rparr>)"
  using assms by (simp add: reconnect_attempt connect_accepted)

text \<open>The codec: digits, strings, numbers, and the parser on what the encoder wrote.\<close>

declare digits.simps [simp del]

lemma of_char_digit_char: "d < 10 \<Longrightarrow> (of_char (digit_char d) :: nat) = 48 + d"
  by (simp add: digit_char_def)

lemma is_digit_digit_char: "d < 10 \<Longrightarrow> is_digit (digit_char d)"
  by (simp add: is_digit_def of_char_digit_char)

lemma digit_val_digit_char: "d < 10 \<Longrightarrow> digit_val (digit_char d) = d"
  by (simp add: digit_val_def of_char_digit_char)

lemma digits_all: "list_all is_digit (digits n)"
  by (induction n rule: digits.induct) (subst digits.simps, simp add: is_digit_digit_char)

lemma digits_nonempty: "digits n \<noteq> []"
  by (subst digits.simps) simp

lemma nat_of_digits_snoc: "nat_of_digits (ds @ [c]) = 10 * nat_of_digits ds + digit_val c"
  by (simp add: nat_of_digits_def)

lemma nat_of_digits_digits: "nat_of_digits (digits n) = n"
proof (induction n rule: digits.induct)
  case (1 n)
  show ?case
  proof (cases "n < 10")
    case True
    then show ?thesis
      by (subst digits.simps) (simp add: nat_of_digits_def digit_val_digit_char)
  next
    case False
    with 1 show ?thesis
      by (subst digits.simps) (simp add: nat_of_digits_snoc digit_val_digit_char)
  qed
qed

lemma hd_digits: "0 < n \<Longrightarrow> hd (digits n) \<noteq> CHR ''0''"
proof (induction n rule: digits.induct)
  case (1 n)
  show ?case
  proof (cases "n < 10")
    case True
    have "(of_char (digit_char n) :: nat) \<noteq> of_char (CHR ''0'')"
      using True "1.prems" by (simp add: of_char_digit_char)
    then have "digit_char n \<noteq> CHR ''0''"
      by auto
    with True show ?thesis
      by (subst digits.simps) simp
  next
    case False
    then have "0 < n div 10" by simp
    with 1 False have "hd (digits (n div 10)) \<noteq> CHR ''0''" by simp
    with False show ?thesis
      by (subst digits.simps) (simp add: digits_nonempty)
  qed
qed

lemma digit_char_0: "digit_char 0 = CHR ''0''"
proof -
  have "(of_char (digit_char 0) :: nat) = of_char (CHR ''0'')"
    by (simp add: of_char_digit_char)
  then show ?thesis
    by (simp only: of_char_eq_iff)
qed

lemma digits_zero: "digits 0 = [CHR ''0'']"
  by (subst digits.simps) (simp add: digit_char_0)

lemma length_frac_digits: "length (frac_digits s k) = s"
  by (induction s arbitrary: k) simp_all

lemma frac_digits_all: "list_all is_digit (frac_digits s k)"
  by (induction s arbitrary: k) (simp_all add: is_digit_digit_char)

lemma nat_of_digits_frac_digits: "nat_of_digits (frac_digits s k) = k mod 10 ^ s"
proof (induction s arbitrary: k)
  case 0
  then show ?case by (simp add: nat_of_digits_def)
next
  case (Suc s)
  have "10 * (k div 10 mod 10 ^ s) + k mod 10 = k mod (10 * 10 ^ s)"
    by (simp add: mod_mult2_eq)
  with Suc show ?case
    by (simp add: nat_of_digits_snoc digit_val_digit_char)
qed

lemma nat_of_digits_append:
  "nat_of_digits (xs @ ys) = nat_of_digits xs * 10 ^ length ys + nat_of_digits ys"
proof (induction ys rule: rev_induct)
  case Nil
  then show ?case by (simp add: nat_of_digits_def)
next
  case (snoc y ys)
  have "nat_of_digits (xs @ ys @ [y]) = 10 * nat_of_digits (xs @ ys) + digit_val y"
    using nat_of_digits_snoc [of "xs @ ys" y] by simp
  with snoc show ?case
    by (simp add: nat_of_digits_snoc algebra_simps)
qed

lemma of_char_lt_256: "(of_char c :: nat) < 256"
proof -
  have "(of_char c :: nat) = of_char (char_of (of_char c :: nat))"
    by simp
  also have "\<dots> = (of_char c :: nat) mod 256"
    by (simp only: of_char_of)
  finally have "(of_char c :: nat) = (of_char c :: nat) mod 256" .
  then show ?thesis
    by (metis mod_less_divisor zero_less_numeral)
qed

lemma hex_val_hex_char: "d < 16 \<Longrightarrow> hex_val (hex_char d) = Some d"
  by (simp add: hex_val_def hex_char_def Let_def)

lemma hex_val_zero: "hex_val (CHR ''0'') = Some 0"
  by (simp add: hex_val_def)

lemma char_of_div_mod: "char_of (16 * ((of_char c :: nat) div 16) + (of_char c :: nat) mod 16) = c"
  by simp

lemma parse_string_escape:
  "parse_string (escape_char c @ cs) = map_option (\<lambda>(s, r). (c # s, r)) (parse_string cs)"
proof -
  let ?n = "of_char c :: nat"
  have lt: "?n div 16 < 16" "?n mod 16 < 16"
    using of_char_lt_256 [of c] by presburger+
  consider (q) "c = dquote" | (b) "c = backslash" | (n) "c = CHR 0x0A" | (r) "c = CHR 0x0D"
    | (t) "c = CHR 0x09" | (bs) "c = CHR 0x08" | (f) "c = CHR 0x0C"
    | (u) "c \<noteq> dquote" "c \<noteq> backslash" "c \<noteq> CHR 0x0A" "c \<noteq> CHR 0x0D" "c \<noteq> CHR 0x09"
          "c \<noteq> CHR 0x08" "c \<noteq> CHR 0x0C" "?n < 32 \<or> 126 < ?n"
    | (p) "c \<noteq> dquote" "c \<noteq> backslash" "\<not> (?n < 32 \<or> 126 < ?n)"
    by blast
  then show ?thesis
  proof cases
    case q
    then show ?thesis by (simp add: escape_char_def unescape_def dquote_def backslash_def)
  next
    case b
    then show ?thesis by (simp add: escape_char_def unescape_def dquote_def backslash_def)
  next
    case n
    then show ?thesis by (simp add: escape_char_def unescape_def dquote_def backslash_def)
  next
    case r
    then show ?thesis by (simp add: escape_char_def unescape_def dquote_def backslash_def)
  next
    case t
    then show ?thesis by (simp add: escape_char_def unescape_def dquote_def backslash_def)
  next
    case bs
    then show ?thesis by (simp add: escape_char_def unescape_def dquote_def backslash_def)
  next
    case f
    then show ?thesis by (simp add: escape_char_def unescape_def dquote_def backslash_def)
  next
    case u
    have e: "escape_char c = [backslash, CHR ''u'', CHR ''0'', CHR ''0'', hex_char (?n div 16), hex_char (?n mod 16)]"
      using u by (simp add: escape_char_def)
    have v: "((0 * 16 + 0) * 16 + ?n div 16) * 16 + ?n mod 16 = ?n"
      by simp
    show ?thesis
      using of_char_lt_256 [of c]
      by (simp add: e hex_val_hex_char lt hex_val_zero v) (simp add: dquote_def backslash_def)
  next
    case p
    then have e: "escape_char c = [c]"
      by (auto simp add: escape_char_def dquote_def backslash_def)
    show ?thesis
      using p by (simp add: e)
  qed
qed

lemma parse_string_encoded:
  "parse_string (concat (map escape_char s) @ dquote # rest) = Some (s, rest)"
  by (induction s) (simp_all add: parse_string_escape)


lemma follow_ok_facts:
  assumes "follow_ok rest"
  shows "takeWhile is_digit rest = []" "dropWhile is_digit rest = rest"
    "parse_frac rest = Some (None, rest)" "parse_exp rest = Some (None, rest)"
  using assms
  by (cases rest; auto simp add: follow_ok_def is_digit_def parse_frac_def parse_exp_def)+

lemma takeWhile_digits:
  assumes "list_all is_digit ds" and "takeWhile is_digit rest = []"
  shows "takeWhile is_digit (ds @ rest) = ds" "dropWhile is_digit (ds @ rest) = dropWhile is_digit rest"
  using assms by (induction ds) simp_all

lemma not_digit_minus: "\<not> is_digit (CHR ''-'')" "\<not> is_digit (CHR ''.'')"
  by (simp_all add: is_digit_def)

lemma hd_digits_not_minus: "hd (digits n) \<noteq> CHR ''-''"
  using digits_all [of n] digits_nonempty [of n] not_digit_minus(1)
  by (cases "digits n") auto

lemma parse_number_digits:
  assumes "follow_ok rest"
  shows "parse_number (digits n @ rest) = Some (JInt (int n), rest)"
proof -
  obtain d ds where d: "digits n = d # ds"
    using digits_nonempty [of n] by (cases "digits n") auto
  have nm: "d \<noteq> CHR ''-''"
    using hd_digits_not_minus [of n] d by simp
  have tw: "takeWhile is_digit (digits n @ rest) = digits n"
    "dropWhile is_digit (digits n @ rest) = rest"
    using takeWhile_digits [OF digits_all follow_ok_facts(1) [OF assms], of n]
      follow_ok_facts(2) [OF assms] by simp_all
  have lead: "\<not> (1 < length (digits n) \<and> hd (digits n) = CHR ''0'')"
  proof (cases "n = 0")
    case True
    then show ?thesis by (simp add: digits_zero)
  next
    case False
    then show ?thesis using hd_digits [of n] by simp
  qed
  show ?thesis
    using nm lead tw digits_nonempty [of n]
    by (simp add: parse_number_def Let_def d [symmetric] follow_ok_facts [OF assms]
          nat_of_digits_digits)
       (simp add: d)
qed

lemma parse_number_minus_digits:
  assumes "follow_ok rest"
  shows "parse_number (CHR ''-'' # digits n @ rest) = Some (JInt (- int n), rest)"
proof -
  have tw: "takeWhile is_digit (digits n @ rest) = digits n"
    "dropWhile is_digit (digits n @ rest) = rest"
    using takeWhile_digits [OF digits_all follow_ok_facts(1) [OF assms], of n]
      follow_ok_facts(2) [OF assms] by simp_all
  have lead: "\<not> (1 < length (digits n) \<and> hd (digits n) = CHR ''0'')"
  proof (cases "n = 0")
    case True
    then show ?thesis by (simp add: digits_zero)
  next
    case False
    then show ?thesis using hd_digits [of n] by simp
  qed
  show ?thesis
    using lead tw digits_nonempty [of n]
    by (simp add: parse_number_def Let_def follow_ok_facts [OF assms] nat_of_digits_digits)
qed

lemma parse_number_int:
  assumes "follow_ok rest"
  shows "parse_number (encode_int i @ rest) = Some (JInt i, rest)"
  using parse_number_digits [OF assms, of "nat i"] parse_number_minus_digits [OF assms, of "nat (- i)"]
  by (simp add: encode_int_def)

lemma strip_zeros_canonical:
  assumes "0 < s" and "s = 1 \<or> m mod 10 \<noteq> 0"
  shows "strip_zeros s m = (m, s)"
proof (cases s)
  case 0
  with assms show ?thesis by simp
next
  case (Suc s')
  with assms show ?thesis by (cases s') simp_all
qed

lemma make_float_canonical:
  assumes "0 < s" and "s = 1 \<or> m mod 10 \<noteq> 0"
  shows "make_float m s 0 = JFloat m s"
  using assms by (simp add: make_float_def Let_def strip_zeros_canonical)

lemma parse_number_fraction:
  assumes "follow_ok rest" and "0 < s"
  shows "parse_number (digits ip @ CHR ''.'' # frac_digits s f @ rest) =
           Some (make_float (int (ip * 10 ^ s + f mod 10 ^ s)) s 0, rest)"
    and "parse_number (CHR ''-'' # digits ip @ CHR ''.'' # frac_digits s f @ rest) =
           Some (make_float (- int (ip * 10 ^ s + f mod 10 ^ s)) s 0, rest)"
proof -
  obtain d ds where d: "digits ip = d # ds"
    using digits_nonempty [of ip] by (cases "digits ip") auto
  have nm: "d \<noteq> CHR ''-''"
    using hd_digits_not_minus [of ip] d by simp
  have dot: "takeWhile is_digit (CHR ''.'' # frac_digits s f @ rest) = []"
    by (simp add: not_digit_minus)
  have tw: "takeWhile is_digit (digits ip @ CHR ''.'' # frac_digits s f @ rest) = digits ip"
    "dropWhile is_digit (digits ip @ CHR ''.'' # frac_digits s f @ rest) = CHR ''.'' # frac_digits s f @ rest"
    using takeWhile_digits [OF digits_all dot, of ip] by (simp_all add: not_digit_minus)
  have fw: "takeWhile is_digit (frac_digits s f @ rest) = frac_digits s f"
    "dropWhile is_digit (frac_digits s f @ rest) = rest"
    using takeWhile_digits [OF frac_digits_all follow_ok_facts(1) [OF assms(1)], of s f]
      follow_ok_facts(2) [OF assms(1)] by simp_all
  have fne: "frac_digits s f \<noteq> []"
    using assms(2) length_frac_digits [of s f] by auto
  have pf: "parse_frac (CHR ''.'' # frac_digits s f @ rest) = Some (Some (frac_digits s f), rest)"
    by (simp add: parse_frac_def fw fne)
  have lead: "\<not> (1 < length (digits ip) \<and> hd (digits ip) = CHR ''0'')"
  proof (cases "ip = 0")
    case True
    then show ?thesis by (simp add: digits_zero)
  next
    case False
    then show ?thesis using hd_digits [of ip] by simp
  qed
  have val: "nat_of_digits (digits ip @ frac_digits s f) = ip * 10 ^ s + f mod 10 ^ s"
    by (simp add: nat_of_digits_append nat_of_digits_digits nat_of_digits_frac_digits length_frac_digits)
  show "parse_number (digits ip @ CHR ''.'' # frac_digits s f @ rest) =
           Some (make_float (int (ip * 10 ^ s + f mod 10 ^ s)) s 0, rest)"
    using nm lead digits_nonempty [of ip]
    by (simp add: parse_number_def Let_def tw pf follow_ok_facts [OF assms(1)] val length_frac_digits)
       (simp add: d)
  show "parse_number (CHR ''-'' # digits ip @ CHR ''.'' # frac_digits s f @ rest) =
           Some (make_float (- int (ip * 10 ^ s + f mod 10 ^ s)) s 0, rest)"
    using lead digits_nonempty [of ip]
    by (simp add: parse_number_def Let_def tw pf follow_ok_facts [OF assms(1)] val length_frac_digits)
qed

lemma parse_number_float:
  assumes "follow_ok rest" and "0 < s" and "s = 1 \<or> m mod 10 \<noteq> 0"
  shows "parse_number (encode_float m s @ rest) = Some (JFloat m s, rest)"
proof -
  let ?a = "nat \<bar>m\<bar>"
  have split: "?a div 10 ^ s * 10 ^ s + ?a mod 10 ^ s mod 10 ^ s = ?a"
    using div_mult_mod_eq [of ?a "10 ^ s"] by (simp only: mod_mod_trivial)
  show ?thesis
  proof (cases "m < 0")
    case True
    have enc: "encode_float m s @ rest =
        CHR ''-'' # digits (?a div 10 ^ s) @ CHR ''.'' # frac_digits s (?a mod 10 ^ s) @ rest"
      using True assms(2) by (simp add: encode_float_def)
    have "parse_number (encode_float m s @ rest) = Some (make_float (- int ?a) s 0, rest)"
      using parse_number_fraction(2) [OF assms(1,2), of "?a div 10 ^ s" "?a mod 10 ^ s"]
      by (simp only: enc split)
    moreover have "- int ?a = m"
      using True by simp
    ultimately show ?thesis
      by (simp only: make_float_canonical [OF assms(2,3)])
  next
    case False
    have enc: "encode_float m s @ rest =
        digits (?a div 10 ^ s) @ CHR ''.'' # frac_digits s (?a mod 10 ^ s) @ rest"
      using False assms(2) by (simp add: encode_float_def)
    have "parse_number (encode_float m s @ rest) = Some (make_float (int ?a) s 0, rest)"
      using parse_number_fraction(1) [OF assms(1,2), of "?a div 10 ^ s" "?a mod 10 ^ s"]
      by (simp only: enc split)
    moreover have "int ?a = m"
      using False by simp
    ultimately show ?thesis
      by (simp only: make_float_canonical [OF assms(2,3)])
  qed
qed


declare parse_value.simps(2) [simp del] parse_elements.simps(2) [simp del] parse_members.simps(2) [simp del]

lemma skip_ws_start: "\<not> is_ws c \<Longrightarrow> skip_ws (c # cs) = c # cs"
  by (simp add: skip_ws_def)

lemma skip_ws_space: "skip_ws (CHR '' '' # cs) = skip_ws cs"
  by (simp add: skip_ws_def is_ws_def)

lemma parse_value_space: "parse_value n (CHR '' '' # cs) = parse_value n cs"
  by (cases n) (simp_all add: parse_value.simps(2) skip_ws_space)

lemma parse_elements_space: "parse_elements n (CHR '' '' # cs) = parse_elements n cs"
  by (cases n) (simp_all add: parse_elements.simps(2) parse_value_space)

lemma parse_members_space: "parse_members n (CHR '' '' # cs) = parse_members n cs"
  by (cases n) (simp_all add: parse_members.simps(2) skip_ws_space)

lemma is_digit_other:
  assumes "is_digit c"
  shows "\<not> is_ws c" "c \<noteq> CHR '']''" "c \<noteq> CHR ''}''" "c \<noteq> dquote" "c \<noteq> CHR ''[''"
    "c \<noteq> CHR ''{''" "c \<noteq> CHR ''t''" "c \<noteq> CHR ''f''" "c \<noteq> CHR ''n''"
  using assms by (auto simp add: is_digit_def is_ws_def dquote_def)

lemma parse_value_number:
  assumes "c = CHR ''-'' \<or> is_digit c"
  shows "parse_value (Suc n) (c # r) = parse_number (c # r)"
proof -
  have ws: "\<not> is_ws c"
    using assms is_digit_other(1) [of c] by (auto simp add: is_ws_def)
  have ne: "c \<noteq> dquote" "c \<noteq> CHR ''[''" "c \<noteq> CHR ''{''" "c \<noteq> CHR ''t''" "c \<noteq> CHR ''f''" "c \<noteq> CHR ''n''"
    using assms is_digit_other [of c] by (auto simp add: dquote_def)
  show ?thesis
    by (simp add: parse_value.simps(2) skip_ws_start [OF ws] ne)
qed

text \<open>How the text of a number begins.\<close>

lemma digits_start: "\<exists>c cs. digits n = c # cs \<and> is_digit c"
  using digits_all [of n] digits_nonempty [of n] by (cases "digits n") auto

lemma number_start:
  "\<exists>c cs. encode_int i = c # cs \<and> (c = CHR ''-'' \<or> is_digit c)"
  "\<exists>c cs. encode_float m s = c # cs \<and> (c = CHR ''-'' \<or> is_digit c)"
  using digits_start [of "nat i"] digits_start [of "nat (- i)"] digits_start [of "nat \<bar>m\<bar> div 10 ^ s"]
  by (auto simp add: encode_int_def encode_float_def)

lemma encode_start:
  "\<exists>c cs. encode v = c # cs \<and> \<not> is_ws c \<and> c \<noteq> CHR '']'' \<and> c \<noteq> CHR ''}''"
proof (cases v)
  case JNull
  then show ?thesis by (simp add: is_ws_def)
next
  case (JBool b)
  then show ?thesis by (simp add: is_ws_def)
next
  case (JInt i)
  with number_start(1) [of i] is_digit_other(1-3) show ?thesis
    by (auto simp add: is_ws_def)
next
  case (JFloat m s)
  with number_start(2) [of m s] is_digit_other(1-3) show ?thesis
    by (auto simp add: is_ws_def)
next
  case (JStr s)
  then show ?thesis by (simp add: encode_string_def is_ws_def dquote_def)
next
  case (JList vs)
  then show ?thesis by (simp add: is_ws_def)
next
  case (JDict kvs)
  then show ?thesis by (simp add: is_ws_def)
qed

lemma dquote_other:
  "\<not> is_ws dquote" "dquote \<noteq> CHR ''[''" "dquote \<noteq> CHR ''{''" "dquote \<noteq> CHR ''t''"
  "dquote \<noteq> CHR ''f''" "dquote \<noteq> CHR ''n''" "dquote \<noteq> CHR '']''" "dquote \<noteq> CHR ''}''"
  "CHR ''['' \<noteq> dquote" "CHR ''{'' \<noteq> dquote" "CHR ''t'' \<noteq> dquote"
  "CHR ''f'' \<noteq> dquote" "CHR ''n'' \<noteq> dquote"
  by (simp_all add: dquote_def is_ws_def)

lemma parse_value_atoms:
  "parse_value (Suc n) (''null'' @ rest) = Some (JNull, rest)"
  "parse_value (Suc n) (''true'' @ rest) = Some (JBool True, rest)"
  "parse_value (Suc n) (''false'' @ rest) = Some (JBool False, rest)"
  by (simp_all add: parse_value.simps(2) skip_ws_def is_ws_def dquote_other parse_literal_def)

lemma parse_value_string:
  "parse_value (Suc n) (encode_string s @ rest) = Some (JStr s, rest)"
  by (simp add: parse_value.simps(2) encode_string_def skip_ws_start [OF dquote_other(1)]
        parse_string_encoded)

lemma follow_ok_comma: "follow_ok (CHR '','' # cs)" "follow_ok (CHR '']'' # cs)" "follow_ok (CHR ''}'' # cs)"
  by (simp_all add: follow_ok_def)

lemma skip_ws_sep:
  "skip_ws (CHR '','' # cs) = CHR '','' # cs" "skip_ws (CHR '']'' # cs) = CHR '']'' # cs"
  "skip_ws (CHR ''}'' # cs) = CHR ''}'' # cs" "skip_ws (CHR '':'' # cs) = CHR '':'' # cs"
  by (simp_all add: skip_ws_def is_ws_def)

lemma parse_elements_join:
  assumes "\<And>v n rest. v \<in> set vs \<Longrightarrow> length (encode v) \<le> n \<Longrightarrow> follow_ok rest \<Longrightarrow>
             parse_value n (encode v @ rest) = Some (v, rest)"
    and "vs \<noteq> []" and "length (join (map encode vs)) < n"
  shows "parse_elements n (join (map encode vs) @ CHR '']'' # rest) = Some (vs, rest)"
  using assms
proof (induction vs arbitrary: n)
  case Nil
  then show ?case by simp
next
  case (Cons x xs)
  note prems = Cons.prems and IH = Cons.IH
  obtain n1 where n: "n = Suc n1"
    using prems(3) by (cases n) auto
  show ?case
  proof (cases xs)
    case Nil
    have "length (encode x) \<le> n1"
      using prems(3) n Nil by simp
    then have "parse_value n1 (encode x @ CHR '']'' # rest) = Some (x, CHR '']'' # rest)"
      using prems(1) [of x n1 "CHR '']'' # rest"] by (simp add: follow_ok_comma)
    then show ?thesis
      by (simp add: n Nil parse_elements.simps(2) skip_ws_sep)
  next
    case (Cons y ys)
    let ?tail = "CHR '','' # CHR '' '' # join (map encode xs) @ CHR '']'' # rest"
    have len: "length (encode x) \<le> n1" "length (join (map encode xs)) < n1"
      using prems(3) n Cons by simp_all
    have px: "parse_value n1 (encode x @ ?tail) = Some (x, ?tail)"
      using prems(1) [of x n1 ?tail] len(1) by (simp add: follow_ok_comma)
    have ih: "parse_elements n1 (join (map encode xs) @ CHR '']'' # rest) = Some (xs, rest)"
    proof (rule IH)
      show "\<And>v n rest. v \<in> set xs \<Longrightarrow> length (encode v) \<le> n \<Longrightarrow> follow_ok rest \<Longrightarrow>
             parse_value n (encode v @ rest) = Some (v, rest)"
        using prems(1) by simp
      show "xs \<noteq> []"
        using Cons by simp
      show "length (join (map encode xs)) < n1"
        by (rule len(2))
    qed
    have whole: "join (map encode (x # xs)) @ CHR '']'' # rest = encode x @ ?tail"
      using Cons by simp
    show ?thesis
      by (simp only: whole n parse_elements.simps(2) px)
         (simp add: skip_ws_sep parse_elements_space ih)
  qed
qed

lemma parse_members_join:
  assumes "\<And>k v n rest. (k, v) \<in> set kvs \<Longrightarrow> length (encode v) \<le> n \<Longrightarrow> follow_ok rest \<Longrightarrow>
             parse_value n (encode v @ rest) = Some (v, rest)"
    and "kvs \<noteq> []"
    and "length (join (map (\<lambda>kv. encode_member (fst kv) (encode (snd kv))) kvs)) < n"
  shows "parse_members n (join (map (\<lambda>kv. encode_member (fst kv) (encode (snd kv))) kvs) @ CHR ''}'' # rest)
           = Some (kvs, rest)"
  using assms
proof (induction kvs arbitrary: n)
  case Nil
  then show ?case by simp
next
  case (Cons kv xs)
  note prems = Cons.prems and IH = Cons.IH
  obtain k v where kv: "kv = (k, v)"
    by (cases kv)
  obtain n1 where n: "n = Suc n1"
    using prems(3) by (cases n) auto
  let ?enc = "\<lambda>kv. encode_member (fst kv) (encode (snd kv))"
  have member: "?enc kv @ tail =
      dquote # concat (map escape_char k) @ dquote # CHR '':'' # CHR '' '' # encode v @ tail" for tail
    by (simp add: kv encode_member_def encode_string_def)
  have start: "parse_members (Suc n1) (?enc kv @ tail) =
      (case parse_value n1 (encode v @ tail) of
         None \<Rightarrow> None
       | Some (v', r3) \<Rightarrow>
           (case skip_ws r3 of
              [] \<Rightarrow> None
            | d # r4 \<Rightarrow>
                if d = CHR '','' then map_option (\<lambda>mr. ((k, v') # fst mr, snd mr)) (parse_members n1 r4)
                else if d = CHR ''}'' then Some ([(k, v')], r4)
                else None))" for tail
    by (simp add: member parse_members.simps(2) skip_ws_start [OF dquote_other(1)]
          parse_string_encoded skip_ws_sep parse_value_space)
  show ?case
  proof (cases xs)
    case Nil
    have "length (encode v) \<le> n1"
      using prems(3) n Nil by (simp add: kv encode_member_def)
    then have "parse_value n1 (encode v @ CHR ''}'' # rest) = Some (v, CHR ''}'' # rest)"
      using prems(1) [of k v n1 "CHR ''}'' # rest"] by (simp add: follow_ok_comma kv)
    then show ?thesis
      using start [of "CHR ''}'' # rest"]
      by (simp add: n Nil skip_ws_sep kv)
  next
    case (Cons y ys)
    let ?tail = "CHR '','' # CHR '' '' # join (map ?enc xs) @ CHR ''}'' # rest"
    have len: "length (encode v) \<le> n1" "length (join (map ?enc xs)) < n1"
      using prems(3) n Cons by (simp_all add: kv encode_member_def)
    have pv: "parse_value n1 (encode v @ ?tail) = Some (v, ?tail)"
      using prems(1) [of k v n1 ?tail] len(1) by (simp add: follow_ok_comma kv)
    have ih: "parse_members n1 (join (map ?enc xs) @ CHR ''}'' # rest) = Some (xs, rest)"
    proof (rule IH)
      show "\<And>k v n rest. (k, v) \<in> set xs \<Longrightarrow> length (encode v) \<le> n \<Longrightarrow> follow_ok rest \<Longrightarrow>
             parse_value n (encode v @ rest) = Some (v, rest)"
        using prems(1) by (meson list.set_intros(2))
      show "xs \<noteq> []"
        using Cons by simp
      show "length (join (map ?enc xs)) < n1"
        by (rule len(2))
    qed
    have whole: "join (map ?enc (kv # xs)) @ CHR ''}'' # rest = ?enc kv @ ?tail"
      using Cons by simp
    show ?thesis
      by (simp only: whole n start pv)
         (simp add: skip_ws_sep parse_members_space ih kv)
  qed
qed

lemma dict_set_fresh: "k \<notin> fst ` set d \<Longrightarrow> dict_set d k v = d @ [(k, v)]"
  by (induction d) auto

lemma dict_of_pairs_distinct_aux:
  "distinct (map fst (d @ kvs)) \<Longrightarrow>
     foldl (\<lambda>d kv. dict_set d (fst kv) (snd kv)) d kvs = d @ kvs"
proof (induction kvs arbitrary: d)
  case Nil
  then show ?case by simp
next
  case (Cons kv kvs)
  have fresh: "fst kv \<notin> fst ` set d"
    using Cons.prems by auto
  have "distinct (map fst ((d @ [kv]) @ kvs))"
    using Cons.prems by simp
  from Cons.IH [OF this] show ?case
    by (simp add: dict_set_fresh [OF fresh])
qed

lemma dict_of_pairs_distinct: "distinct (map fst kvs) \<Longrightarrow> dict_of_pairs kvs = kvs"
  using dict_of_pairs_distinct_aux [of "[]" kvs] by (simp add: dict_of_pairs_def)

text \<open>The parser reads back what the encoder wrote, given the length of the text as depth.\<close>

lemma parse_value_encode:
  "valid_json v \<Longrightarrow> length (encode v) \<le> n \<Longrightarrow> follow_ok rest \<Longrightarrow>
     parse_value n (encode v @ rest) = Some (v, rest)"
proof (induction v arbitrary: n rest)
  case JNull
  then obtain n1 where "n = Suc n1" by (cases n) auto
  then show ?case using parse_value_atoms(1) by simp
next
  case (JBool b)
  then obtain n1 where "n = Suc n1" by (cases n; cases b) auto
  then show ?case using parse_value_atoms(2,3) by simp
next
  case (JInt i)
  obtain c cs where c: "encode_int i = c # cs" "c = CHR ''-'' \<or> is_digit c"
    using number_start(1) [of i] by auto
  obtain n1 where n: "n = Suc n1"
    using JInt.prems(2) c by (cases n) auto
  have "parse_value (Suc n1) (encode_int i @ rest) = parse_number (encode_int i @ rest)"
    using parse_value_number [OF c(2), of n1 "cs @ rest"] c(1) by simp
  then show ?case
    by (simp add: n parse_number_int [OF JInt.prems(3)])
next
  case (JFloat m s)
  obtain c cs where c: "encode_float m s = c # cs" "c = CHR ''-'' \<or> is_digit c"
    using number_start(2) [of m s] by auto
  obtain n1 where n: "n = Suc n1"
    using JFloat.prems(2) c by (cases n) auto
  have "parse_value (Suc n1) (encode_float m s @ rest) = parse_number (encode_float m s @ rest)"
    using parse_value_number [OF c(2), of n1 "cs @ rest"] c(1) by simp
  moreover have "0 < s" "s = 1 \<or> m mod 10 \<noteq> 0"
    using JFloat.prems(1) by simp_all
  ultimately show ?case
    by (simp add: n parse_number_float [OF JFloat.prems(3)])
next
  case (JStr s)
  then obtain n1 where "n = Suc n1"
    by (cases n) (auto simp add: encode_string_def)
  then show ?case using parse_value_string by simp
next
  case (JList vs)
  obtain n1 where n: "n = Suc n1"
    using JList.prems(2) by (cases n) auto
  have open_bracket: "parse_value (Suc n1) (CHR ''['' # r) =
      (case skip_ws r of
         [] \<Rightarrow> None
       | d # r' \<Rightarrow>
           if d = CHR '']'' then Some (JList [], r')
           else map_option (\<lambda>vr. (JList (fst vr), snd vr)) (parse_elements n1 r))" for r
    by (simp add: parse_value.simps(2) skip_ws_def is_ws_def dquote_other)
  show ?case
  proof (cases vs)
    case Nil
    then show ?thesis
      by (simp add: n open_bracket skip_ws_sep)
  next
    case (Cons x xs)
    obtain c cs where c: "encode x = c # cs" "\<not> is_ws c" "c \<noteq> CHR '']''"
      using encode_start [of x] by auto
    have "\<exists>cs'. join (map encode vs) @ CHR '']'' # rest = c # cs'"
      using Cons c(1) by (cases xs) simp_all
    then obtain cs' where first: "join (map encode vs) @ CHR '']'' # rest = c # cs'"
      by auto
    have valid: "\<And>v. v \<in> set vs \<Longrightarrow> valid_json v"
      using JList.prems(1) by (simp add: list_all_iff)
    have ih: "\<And>v n rest. v \<in> set vs \<Longrightarrow> length (encode v) \<le> n \<Longrightarrow> follow_ok rest \<Longrightarrow>
             parse_value n (encode v @ rest) = Some (v, rest)"
      using JList.IH valid by simp
    have len: "length (join (map encode vs)) < n1"
      using JList.prems(2) n by simp
    have "parse_elements n1 (join (map encode vs) @ CHR '']'' # rest) = Some (vs, rest)"
    proof (rule parse_elements_join)
      show "\<And>v n rest. v \<in> set vs \<Longrightarrow> length (encode v) \<le> n \<Longrightarrow> follow_ok rest \<Longrightarrow>
             parse_value n (encode v @ rest) = Some (v, rest)"
        by (rule ih)
      show "vs \<noteq> []"
        using Cons by simp
      show "length (join (map encode vs)) < n1"
        by (rule len)
    qed
    moreover have "skip_ws (join (map encode vs) @ CHR '']'' # rest) = c # cs'"
      by (simp add: first skip_ws_start [OF c(2)])
    ultimately show ?thesis
      using c(3) by (simp add: n open_bracket first)
  qed
next
  case (JDict kvs)
  let ?enc = "\<lambda>kv. encode_member (fst kv) (encode (snd kv))"
  obtain n1 where n: "n = Suc n1"
    using JDict.prems(2) by (cases n) auto
  have open_brace: "parse_value (Suc n1) (CHR ''{'' # r) =
      (case skip_ws r of
         [] \<Rightarrow> None
       | d # r' \<Rightarrow>
           if d = CHR ''}'' then Some (JDict [], r')
           else map_option (\<lambda>mr. (JDict (dict_of_pairs (fst mr)), snd mr)) (parse_members n1 r))" for r
    by (simp add: parse_value.simps(2) skip_ws_def is_ws_def dquote_other)
  show ?case
  proof (cases kvs)
    case Nil
    then show ?thesis
      by (simp add: n open_brace skip_ws_sep)
  next
    case (Cons x xs)
    have "\<exists>cs'. join (map ?enc kvs) @ CHR ''}'' # rest = dquote # cs'"
      using Cons by (cases xs) (simp_all add: encode_member_def encode_string_def)
    then obtain cs' where first: "join (map ?enc kvs) @ CHR ''}'' # rest = dquote # cs'"
      by auto
    have valid: "\<And>k v. (k, v) \<in> set kvs \<Longrightarrow> valid_json v"
      using JDict.prems(1) by (auto simp add: list_all_iff)
    have ih: "\<And>k v n rest. (k, v) \<in> set kvs \<Longrightarrow> length (encode v) \<le> n \<Longrightarrow> follow_ok rest \<Longrightarrow>
             parse_value n (encode v @ rest) = Some (v, rest)"
    proof -
      fix k v n rest
      assume kv: "(k, v) \<in> set kvs" and l: "length (encode v) \<le> n" and f: "follow_ok rest"
      have "v \<in> Basic_BNFs.snds (k, v)"
        by simp
      from JDict.IH [OF kv this valid [OF kv] l f]
      show "parse_value n (encode v @ rest) = Some (v, rest)" .
    qed
    have len: "length (join (map ?enc kvs)) < n1"
      using JDict.prems(2) n by simp
    have "parse_members n1 (join (map ?enc kvs) @ CHR ''}'' # rest) = Some (kvs, rest)"
    proof (rule parse_members_join)
      show "\<And>k v n rest. (k, v) \<in> set kvs \<Longrightarrow> length (encode v) \<le> n \<Longrightarrow> follow_ok rest \<Longrightarrow>
             parse_value n (encode v @ rest) = Some (v, rest)"
        by (rule ih)
      show "kvs \<noteq> []"
        using Cons by simp
      show "length (join (map ?enc kvs)) < n1"
        by (rule len)
    qed
    moreover have "skip_ws (join (map ?enc kvs) @ CHR ''}'' # rest) = dquote # cs'"
      by (simp add: first skip_ws_start [OF dquote_other(1)])
    moreover have "dict_of_pairs kvs = kvs"
      using JDict.prems(1) by (simp add: dict_of_pairs_distinct)
    ultimately show ?thesis
      using dquote_other(8) by (simp add: n open_brace first)
  qed
qed

lemma decode_encode:
  assumes "valid_json v"
  shows "decode (encode v) = Inr v"
proof -
  have "follow_ok []"
    by (simp add: follow_ok_def)
  from parse_value_encode [OF assms _ this, of "Suc (length (encode v))"]
  show ?thesis
    by (simp add: decode_def skip_ws_def)
qed

text \<open>The codec on concrete texts.\<close>

lemma codec_examples:
  \<open>encode (envelope ''error'' (JDict [(''confidence'', JFloat 15 1), (''n'', JInt (- 12)),
      (''xs'', JList [JNull, JBool True, JFloat (- 5) 2])]) ''t'') =
    ''{"type": "error", "data": {"confidence": 1.5, "n": -12, "xs": [null, true, -0.05]}, "timestamp": "t"}''\<close>
  \<open>decode ''{ "a" : [1, 2.50, 1e2] , "b": {}, "a": "x" }'' =
    Inr (JDict [(''a'', JStr ''x''), (''b'', JDict [])])\<close>
  \<open>decode ''[1, 2.50, 15e-1]'' = Inr (JList [JInt 1, JFloat 25 1, JFloat 15 1])\<close>
  \<open>decode ''not json'' = Inl JSONDecodeError\<close>
  \<open>decode ''[1,]'' = Inl JSONDecodeError\<close>
  \<open>decode ''{"a": 01}'' = Inl JSONDecodeError\<close>
  by code_simp+

subsection \<open>Error handling of \<^verbatim>\<open>connect\<close> and \<^verbatim>\<open>send_message\<close>\<close>

text \<open>
  Claim C5. No error of the transport leaves \<^verbatim>\<open>connect\<close> or \<^verbatim>\<open>send_message\<close> as
  an exception: in every world and every environment both return a boolean. When
  \<^verbatim>\<open>websockets.connect\<close> raises, \<^verbatim>\<open>connect\<close> returns \<^verbatim>\<open>False\<close>, and so does
  \<^verbatim>\<open>send_message\<close> on a client that is not connected; when the write on an open
  connection raises, \<^verbatim>\<open>send_message\<close> returns \<^verbatim>\<open>False\<close>. In each of these cases the
  attributes of the client are left as they were; the failure is logged.
\<close>

theorem transport_errors_never_escape:
  "(\<exists>b. fst (connect E w) = Inr b)
   \<and> (\<exists>b. fst (send_message E t d w) = Inr b)
   \<and> (ws_connect E (n_connect w) = Some e \<longrightarrow>
        fst (connect E w) = Inr False \<and> self (snd (connect E w)) = self w)
   \<and> (not_connected (self w) \<and> ws_connect E (n_connect w) = Some e \<longrightarrow>
        fst (send_message E t d w) = Inr False \<and> self (snd (send_message E t d w)) = self w)
   \<and> (\<not> not_connected (self w) \<and> ws_send E (n_send w) = Some e
        \<and> json_dumps E (envelope t d (now_isoformat E (n_now w))) = Inr txt \<longrightarrow>
        fst (send_message E t d w) = Inr False \<and> self (snd (send_message E t d w)) = self w)"
proof (intro conjI impI)
  show "\<exists>b. fst (connect E w) = Inr b" by (rule connect_returns)
  show "\<exists>b. fst (send_message E t d w) = Inr b" by (rule send_message_returns)
next
  assume "ws_connect E (n_connect w) = Some e"
  then show "fst (connect E w) = Inr False" "self (snd (connect E w)) = self w"
    by (simp_all add: connect_raises)
next
  assume a: "not_connected (self w) \<and> ws_connect E (n_connect w) = Some e"
  then show "fst (send_message E t d w) = Inr False" "self (snd (send_message E t d w)) = self w"
    by (simp_all add: send_message_not_connected_eq connect_raises)
next
  assume a: "\<not> not_connected (self w) \<and> ws_send E (n_send w) = Some e
        \<and> json_dumps E (envelope t d (now_isoformat E (n_now w))) = Inr txt"
  then show "fst (send_message E t d w) = Inr False" "self (snd (send_message E t d w)) = self w"
    by (simp_all add: send_message_connected)
qed

theorem transport_errors_never_escape_witness:
  "ws_connect env_refusing (n_connect fresh) = Some OSError
   \<and> not_connected (self fresh)
   \<and> fst (connect env_refusing fresh) = Inr False
   \<and> self (snd (connect env_refusing fresh)) = self fresh
   \<and> fst (send_message env_refusing ''error'' JNull fresh) = Inr False
   \<and> \<not> not_connected (self linked)
   \<and> ws_send env_refusing (n_send linked) = Some ConnectionClosed
   \<and> json_dumps env_refusing (envelope ''error'' JNull (now_isoformat env_refusing (n_now linked))) = Inr ''{}''
   \<and> fst (send_message env_refusing ''error'' JNull linked) = Inr False
   \<and> self (snd (send_message env_refusing ''error'' JNull linked)) = self linked"
proof -
  have h1: "ws_connect env_refusing (n_connect fresh) = Some OSError"
    by (simp add: env_refusing_def)
  have h2: "not_connected (self fresh)"
    by (simp add: fresh_def init_def not_connected_def)
  have h3: "\<not> not_connected (self linked)"
    by (simp add: linked_def init_def not_connected_def)
  have h4: "ws_send env_refusing (n_send linked) = Some ConnectionClosed"
    by (simp add: env_refusing_def)
  have h5: "json_dumps env_refusing (envelope ''error'' JNull (now_isoformat env_refusing (n_now linked))) = Inr ''{}''"
    by (simp add: env_refusing_def)
  show ?thesis
    using h1 h2 h3 h4 h5
      transport_errors_never_escape [of env_refusing fresh "''error''" JNull OSError]
      transport_errors_never_escape [of env_refusing linked "''error''" JNull ConnectionClosed "''{}''"]
    by simp
qed

subsection \<open>Sending while not connected\<close>

text \<open>
  Claim C1, as amended. On a client that is not connected (\<^verbatim>\<open>websocket\<close> absent or
  closed) \<^verbatim>\<open>send_message\<close> calls \<^verbatim>\<open>connect\<close> itself: it makes exactly one connection
  attempt and sleeps for no backoff delay. If the attempt fails it returns \<^verbatim>\<open>False\<close>
  and nothing has been written; if the attempt succeeds it goes on as on the client that is
  now connected, and the message is sent on the new connection. On a connected client it
  makes no connection attempt.
\<close>

theorem send_message_connects_when_not_connected:
  "(not_connected (self w) \<longrightarrow>
      n_connect (snd (send_message E t d w)) = Suc (n_connect w)
      \<and> sleeps (trace (snd (send_message E t d w))) = sleeps (trace w))
   \<and> (not_connected (self w) \<and> ws_connect E (n_connect w) = Some e \<longrightarrow>
      send_message E t d w =
        (Inr False,
         w\<lparr>n_connect := Suc (n_connect w),
           trace := trace w @ [Log WARNING Not_connected_attempting_to_reconnect,
                               Log INFO (Connecting (server_url (self w))),
                               WsConnect (server_url (self w)),
                               Log ERROR (Connection_failed e)]\<rparr>))
   \<and> (not_connected (self w) \<and> ws_connect E (n_connect w) = None \<longrightarrow>
      send_message E t d w =
        send_message E t d
          (w\<lparr>self := (self w)\<lparr>websocket := Some \<lparr>conn_id = n_connect w, closed = False\<rparr>,
                             running := True, reconnect_attempts := 0\<rparr>,
             n_connect := Suc (n_connect w),
             trace := trace w @ [Log WARNING Not_connected_attempting_to_reconnect,
                                 Log INFO (Connecting (server_url (self w))),
                                 WsConnect (server_url (self w)),
                                 Log INFO Connected_successfully]\<rparr>))
   \<and> (\<not> not_connected (self w) \<longrightarrow>
      n_connect (snd (send_message E t d w)) = n_connect w)"
proof (intro conjI impI)
  assume nc: "not_connected (self w)"
  let ?w0 = "w\<lparr>trace := trace w @ [Log WARNING Not_connected_attempting_to_reconnect]\<rparr>"
  show "n_connect (snd (send_message E t d w)) = Suc (n_connect w)"
  proof (cases "ws_connect E (n_connect w)")
    case None
    have c: "\<not> not_connected (self (snd (connect E ?w0)))"
      by (simp add: connect_accepted None not_connected_def)
    show ?thesis
      using c
      by (simp add: send_message_not_connected_eq [OF nc] connect_accepted None send_message_connected
            split: sum.splits option.splits)
  next
    case (Some e)
    then show ?thesis
      by (simp add: send_message_not_connected_eq [OF nc] connect_raises)
  qed
  show "sleeps (trace (snd (send_message E t d w))) = sleeps (trace w)"
  proof (cases "ws_connect E (n_connect w)")
    case None
    have c: "\<not> not_connected (self (snd (connect E ?w0)))"
      by (simp add: connect_accepted None not_connected_def)
    show ?thesis
      using c
      by (simp add: send_message_not_connected_eq [OF nc] connect_accepted None send_message_connected
            sleeps_append split: sum.splits option.splits)
  next
    case (Some e)
    then show ?thesis
      by (simp add: send_message_not_connected_eq [OF nc] connect_raises sleeps_append)
  qed
next
  assume "not_connected (self w) \<and> ws_connect E (n_connect w) = Some e"
  then show "send_message E t d w =
        (Inr False,
         w\<lparr>n_connect := Suc (n_connect w),
           trace := trace w @ [Log WARNING Not_connected_attempting_to_reconnect,
                               Log INFO (Connecting (server_url (self w))),
                               WsConnect (server_url (self w)),
                               Log ERROR (Connection_failed e)]\<rparr>)"
    by (simp add: send_message_not_connected_eq connect_raises)
next
  assume "not_connected (self w) \<and> ws_connect E (n_connect w) = None"
  then show "send_message E t d w =
        send_message E t d
          (w\<lparr>self := (self w)\<lparr>websocket := Some \<lparr>conn_id = n_connect w, closed = False\<rparr>,
                             running := True, reconnect_attempts := 0\<rparr>,
             n_connect := Suc (n_connect w),
             trace := trace w @ [Log WARNING Not_connected_attempting_to_reconnect,
                                 Log INFO (Connecting (server_url (self w))),
                                 WsConnect (server_url (self w)),
                                 Log INFO Connected_successfully]\<rparr>)"
    by (simp add: send_message_not_connected_eq connect_accepted)
next
  assume "\<not> not_connected (self w)"
  then show "n_connect (snd (send_message E t d w)) = n_connect w"
    by (simp add: send_message_connected split: sum.splits option.splits)
qed

text \<open>
  The claim as the specification words it (such a call returns the failure and attempts no
  connection) fails on a client that has just been constructed when the transport accepts
  connections: the call connects and returns \<^verbatim>\<open>True\<close>.
\<close>

theorem send_while_not_connected_counterexample:
  "not_connected (self fresh)
   \<and> fst (send_message env_accepting ''error'' JNull fresh) = Inr True
   \<and> n_connect (snd (send_message env_accepting ''error'' JNull fresh)) = Suc (n_connect fresh)
   \<and> trace (snd (send_message env_accepting ''error'' JNull fresh)) =
       [Log WARNING Not_connected_attempting_to_reconnect,
        Log INFO (Connecting ''ws://localhost:3001''),
        WsConnect ''ws://localhost:3001'',
        Log INFO Connected_successfully,
        WsSend 0 ''{}'',
        Log DEBUG (Sent_message_type ''error'')]"
proof -
  have nc: "not_connected (self fresh)"
    by (simp add: fresh_def init_def not_connected_def)
  have acc: "ws_connect env_accepting (n_connect fresh) = None"
    by (simp add: env_accepting_def)
  have eq: "send_message env_accepting ''error'' JNull fresh =
      (Inr True,
       fresh\<lparr>self := (self fresh)\<lparr>websocket := Some \<lparr>conn_id = 0, closed = False\<rparr>,
                                 running := True, reconnect_attempts := 0\<rparr>,
             n_connect := 1, n_send := 1, n_now := 1,
             trace := [Log WARNING Not_connected_attempting_to_reconnect,
                       Log INFO (Connecting ''ws://localhost:3001''),
                       WsConnect ''ws://localhost:3001'',
                       Log INFO Connected_successfully,
                       WsSend 0 ''{}'',
                       Log DEBUG (Sent_message_type ''error'')]\<rparr>)"
    by (simp add: send_message_not_connected_eq [OF nc] connect_accepted acc send_message_connected
          not_connected_def)
       (simp add: fresh_def init_def env_accepting_def)
  show ?thesis
    using nc by (simp add: eq) (simp add: fresh_def)
qed

theorem send_message_connects_when_not_connected_witness:
  "not_connected (self fresh)
   \<and> ws_connect env_refusing (n_connect fresh) = Some OSError
   \<and> ws_connect env_accepting (n_connect fresh) = None
   \<and> \<not> not_connected (self linked)
   \<and> n_connect (snd (send_message env_refusing ''error'' JNull fresh)) = 1
   \<and> fst (send_message env_refusing ''error'' JNull fresh) = Inr False
   \<and> fst (send_message env_accepting ''error'' JNull fresh) =
       fst (send_message env_accepting ''error'' JNull
         (fresh\<lparr>self := (self fresh)\<lparr>websocket := Some \<lparr>conn_id = 0, closed = False\<rparr>,
                                   running := True, reconnect_attempts := 0\<rparr>,
                n_connect := 1,
                trace := [Log WARNING Not_connected_attempting_to_reconnect,
                          Log INFO (Connecting ''ws://localhost:3001''),
                          WsConnect ''ws://localhost:3001'',
                          Log INFO Connected_successfully]\<rparr>))
   \<and> n_connect (snd (send_message env_accepting ''error'' JNull linked)) = 1"
proof -
  have h1: "not_connected (self fresh)"
    by (simp add: fresh_def init_def not_connected_def)
  have h2: "ws_connect env_refusing (n_connect fresh) = Some OSError"
    by (simp add: env_refusing_def)
  have h3: "ws_connect env_accepting (n_connect fresh) = None"
    by (simp add: env_accepting_def)
  have h4: "\<not> not_connected (self linked)"
    by (simp add: linked_def init_def not_connected_def)
  have f: "n_connect fresh = 0" "trace fresh = []" "server_url (self fresh) = ''ws://localhost:3001''"
    "n_connect linked = 1"
    by (simp_all add: fresh_def linked_def init_def)
  show ?thesis
    using h1 h2 h3 h4
      send_message_connects_when_not_connected [of fresh env_refusing "''error''" JNull OSError]
      send_message_connects_when_not_connected [of fresh env_accepting "''error''" JNull OSError]
      send_message_connects_when_not_connected [of linked env_accepting "''error''" JNull OSError]
    by (simp add: f)
qed

subsection \<open>Backoff\<close>

text \<open>
  Claim C3. (1) When \<open>k - 1\<close> attempts have been counted and \<open>k\<close> does not exceed the
  limit, \<^verbatim>\<open>reconnect\<close> counts attempt \<open>k\<close>, sleeps \<^verbatim>\<open>reconnect_delay * k\<close> and then
  calls \<^verbatim>\<open>connect\<close>. (2) Hence \<open>n\<close> failed attempts in a row, starting from a counter of
  zero, have slept \<open>base * 1, ..., base * n\<close>. (3) When the transport refuses the first two
  connection attempts and accepts the third (the first \<^verbatim>\<open>connect\<close>, then two calls of
  \<^verbatim>\<open>reconnect\<close>), the results are \<^verbatim>\<open>False\<close>, \<^verbatim>\<open>False\<close>, \<^verbatim>\<open>True\<close>, the delays slept
  are \<open>1 * base\<close> and \<open>2 * base\<close>, and the counter is zero at the end. (4) Every successful
  \<^verbatim>\<open>connect\<close> sets the counter to zero.
\<close>

theorem linear_backoff:
  "(reconnect_attempts (self w) = k - 1 \<and> k \<le> max_reconnect_attempts (self w) \<longrightarrow>
      reconnect E w =
        connect E (w\<lparr>self := (self w)\<lparr>reconnect_attempts := k\<rparr>,
                     trace := trace w @
                       [Log INFO (Attempting_to_reconnect k (max_reconnect_attempts (self w))
                          (reconnect_delay (self w) * k)),
                        Sleep (reconnect_delay (self w) * k)]\<rparr>))
   \<and> (reconnect_attempts (self w) = 0 \<and> int n \<le> max_reconnect_attempts (self w)
        \<and> (\<forall>i<n. ws_connect E (n_connect w + i) \<noteq> None) \<longrightarrow>
      sleeps (trace (reconnect_calls E n w)) =
        sleeps (trace w) @ map (\<lambda>i. reconnect_delay (self w) * (int i + 1)) [0..<n])
   \<and> (reconnect_attempts (self w) = 0 \<and> 2 \<le> max_reconnect_attempts (self w)
        \<and> ws_connect E (n_connect w) \<noteq> None \<and> ws_connect E (n_connect w + 1) \<noteq> None
        \<and> ws_connect E (n_connect w + 2) = None \<longrightarrow>
      fst (connect E w) = Inr False
      \<and> fst (reconnect E (snd (connect E w))) = Inr False
      \<and> fst (reconnect E (snd (reconnect E (snd (connect E w))))) = Inr True
      \<and> sleeps (trace (snd (reconnect E (snd (reconnect E (snd (connect E w))))))) =
          sleeps (trace w) @ [1 * reconnect_delay (self w), 2 * reconnect_delay (self w)]
      \<and> reconnect_attempts (self (snd (reconnect E (snd (reconnect E (snd (connect E w))))))) = 0
      \<and> \<not> not_connected (self (snd (reconnect E (snd (reconnect E (snd (connect E w))))))))
   \<and> (ws_connect E (n_connect w) = None \<longrightarrow>
      fst (connect E w) = Inr True \<and> reconnect_attempts (self (snd (connect E w))) = 0)"
proof (intro conjI impI)
  assume a: "reconnect_attempts (self w) = k - 1 \<and> k \<le> max_reconnect_attempts (self w)"
  then have lt: "reconnect_attempts (self w) < max_reconnect_attempts (self w)"
    by simp
  from a show "reconnect E w =
        connect E (w\<lparr>self := (self w)\<lparr>reconnect_attempts := k\<rparr>,
                     trace := trace w @
                       [Log INFO (Attempting_to_reconnect k (max_reconnect_attempts (self w))
                          (reconnect_delay (self w) * k)),
                        Sleep (reconnect_delay (self w) * k)]\<rparr>)"
    by (simp add: reconnect_attempt [OF lt])
next
  assume a: "reconnect_attempts (self w) = 0 \<and> int n \<le> max_reconnect_attempts (self w)
        \<and> (\<forall>i<n. ws_connect E (n_connect w + i) \<noteq> None)"
  then have "reconnect_attempts (self w) + int n \<le> max_reconnect_attempts (self w)"
    and "\<forall>i<n. ws_connect E (n_connect w + i) \<noteq> None"
    by simp_all
  from reconnect_calls_failed [OF this] a
  show "sleeps (trace (reconnect_calls E n w)) =
        sleeps (trace w) @ map (\<lambda>i. reconnect_delay (self w) * (int i + 1)) [0..<n]"
    by simp
next
  assume a: "reconnect_attempts (self w) = 0 \<and> 2 \<le> max_reconnect_attempts (self w)
        \<and> ws_connect E (n_connect w) \<noteq> None \<and> ws_connect E (n_connect w + 1) \<noteq> None
        \<and> ws_connect E (n_connect w + 2) = None"
  then obtain e1 e2 where e1: "ws_connect E (n_connect w) = Some e1"
    and e2: "ws_connect E (Suc (n_connect w)) = Some e2"
    and e3: "ws_connect E (Suc (Suc (n_connect w))) = None"
    by auto
  let ?w1 = "snd (connect E w)"
  let ?w2 = "snd (reconnect E ?w1)"
  let ?w3 = "snd (reconnect E ?w2)"
  have c1: "connect E w = (Inr False,
           w\<lparr>n_connect := Suc (n_connect w),
             trace := trace w @ [Log INFO (Connecting (server_url (self w))),
                                 WsConnect (server_url (self w)),
                                 Log ERROR (Connection_failed e1)]\<rparr>)"
    by (rule connect_raises [OF e1])
  have lt1: "reconnect_attempts (self ?w1) < max_reconnect_attempts (self ?w1)"
    using a by (simp add: c1)
  have f1: "ws_connect E (n_connect ?w1) = Some e2"
    using e2 by (simp add: c1)
  note r1 = reconnect_failed [OF lt1 f1]
  have lt2: "reconnect_attempts (self ?w2) < max_reconnect_attempts (self ?w2)"
    using a by (simp add: r1) (simp add: c1)
  have f2: "ws_connect E (n_connect ?w2) = None"
    using e3 by (simp add: r1) (simp add: c1)
  note r2 = reconnect_succeeded [OF lt2 f2]
  have s2: "self ?w2 = (self w)\<lparr>reconnect_attempts := 1\<rparr>"
    "sleeps (trace ?w2) = sleeps (trace w) @ [reconnect_delay (self w)]"
    using a by (simp_all add: r1 sleeps_append) (simp_all add: c1 sleeps_append)
  show "fst (connect E w) = Inr False"
    by (simp add: c1)
  show "fst (reconnect E ?w1) = Inr False"
    by (simp add: r1)
  show "fst (reconnect E ?w2) = Inr True"
    by (simp add: r2)
  show "sleeps (trace ?w3) = sleeps (trace w) @ [1 * reconnect_delay (self w), 2 * reconnect_delay (self w)]"
    by (simp add: r2 sleeps_append s2)
  show "reconnect_attempts (self ?w3) = 0"
    by (simp add: r2)
  show "\<not> not_connected (self ?w3)"
    by (simp add: r2 not_connected_def)
next
  assume "ws_connect E (n_connect w) = None"
  then show "fst (connect E w) = Inr True" "reconnect_attempts (self (snd (connect E w))) = 0"
    by (simp_all add: connect_accepted)
qed

theorem linear_backoff_witness:
  "reconnect_attempts (self fresh) = 1 - 1 \<and> 1 \<le> max_reconnect_attempts (self fresh)
   \<and> reconnect env_third_time fresh =
       connect env_third_time
         (fresh\<lparr>self := (self fresh)\<lparr>reconnect_attempts := 1\<rparr>,
                trace := [Log INFO (Attempting_to_reconnect 1 10 5), Sleep 5]\<rparr>)
   \<and> ws_connect env_refusing (n_connect fresh + 0) \<noteq> None
   \<and> ws_connect env_refusing (n_connect fresh + 1) \<noteq> None
   \<and> ws_connect env_refusing (n_connect fresh + 2) \<noteq> None
   \<and> ws_connect env_refusing (n_connect fresh + 3) \<noteq> None
   \<and> sleeps (trace (reconnect_calls env_refusing 4 fresh)) = [5, 10, 15, 20]
   \<and> ws_connect env_third_time (n_connect fresh) \<noteq> None
   \<and> ws_connect env_third_time (n_connect fresh + 1) \<noteq> None
   \<and> ws_connect env_third_time (n_connect fresh + 2) = None
   \<and> fst (reconnect env_third_time (snd (reconnect env_third_time (snd (connect env_third_time fresh))))) = Inr True
   \<and> sleeps (trace (snd (reconnect env_third_time (snd (reconnect env_third_time (snd (connect env_third_time fresh))))))) = [5, 10]
   \<and> reconnect_attempts (self (snd (reconnect env_third_time (snd (reconnect env_third_time (snd (connect env_third_time fresh))))))) = 0
   \<and> ws_connect env_accepting (n_connect fresh) = None
   \<and> reconnect_attempts (self (snd (connect env_accepting fresh))) = 0"
proof -
  have f: "reconnect_attempts (self fresh) = 0" "max_reconnect_attempts (self fresh) = 10"
    "reconnect_delay (self fresh) = 5" "n_connect fresh = 0" "trace fresh = []"
    by (simp_all add: fresh_def init_def)
  have h1: "\<forall>i<4. ws_connect env_refusing (n_connect fresh + i) \<noteq> None"
    by (simp add: env_refusing_def)
  have h2: "ws_connect env_third_time (n_connect fresh) \<noteq> None"
    "ws_connect env_third_time (n_connect fresh + 1) \<noteq> None"
    "ws_connect env_third_time (n_connect fresh + 2) = None"
    by (simp_all add: env_third_time_def f)
  have h3: "ws_connect env_accepting (n_connect fresh) = None"
    by (simp add: env_accepting_def)
  have m: "map g [0..<4] = [g 0, g 1, g 2, g 3]" for g :: "nat \<Rightarrow> int"
    by (simp add: upt_rec numeral_2_eq_2 numeral_3_eq_3)
  have h4: "ws_connect env_refusing i \<noteq> None" for i
    by (simp add: env_refusing_def)
  show ?thesis
    using h1 h2 h3 h4
      linear_backoff [of fresh 1 env_third_time 0]
      linear_backoff [of fresh 1 env_refusing 4]
      linear_backoff [of fresh 1 env_accepting 0]
    by (simp add: f m)
qed

subsection \<open>Giving up\<close>

text \<open>What \<^verbatim>\<open>send_message\<close> does to the counters of a client that is not connected.\<close>

lemma send_message_attempts:
  assumes "not_connected (self w)"
  shows "n_connect (snd (send_message E t d w)) = Suc (n_connect w)"
proof (cases "ws_connect E (n_connect w)")
  case None
  let ?w0 = "w\<lparr>trace := trace w @ [Log WARNING Not_connected_attempting_to_reconnect]\<rparr>"
  have c: "\<not> not_connected (self (snd (connect E ?w0)))"
    by (simp add: connect_accepted None not_connected_def)
  show ?thesis
    using c
    by (simp add: send_message_not_connected_eq [OF assms] connect_accepted None send_message_connected
          split: sum.splits option.splits)
next
  case (Some e)
  then show ?thesis
    by (simp add: send_message_not_connected_eq [OF assms] connect_raises)
qed

lemma send_message_resets:
  assumes "not_connected (self w)" and "ws_connect E (n_connect w) = None"
  shows "reconnect_attempts (self (snd (send_message E t d w))) = 0"
    and "max_reconnect_attempts (self (snd (send_message E t d w))) = max_reconnect_attempts (self w)"
proof -
  let ?w0 = "w\<lparr>trace := trace w @ [Log WARNING Not_connected_attempting_to_reconnect]\<rparr>"
  have c: "\<not> not_connected (self (snd (connect E ?w0)))"
    by (simp add: connect_accepted assms(2) not_connected_def)
  show "reconnect_attempts (self (snd (send_message E t d w))) = 0"
    using c
    by (simp add: send_message_not_connected_eq [OF assms(1)] connect_accepted assms(2)
          send_message_connected split: sum.splits option.splits)
  show "max_reconnect_attempts (self (snd (send_message E t d w))) = max_reconnect_attempts (self w)"
    using c
    by (simp add: send_message_not_connected_eq [OF assms(1)] connect_accepted assms(2)
          send_message_connected split: sum.splits option.splits)
qed

lemma reconnect_counts:
  assumes "reconnect_attempts (self w) < max_reconnect_attempts (self w)"
  shows "n_connect (snd (reconnect E w)) = Suc (n_connect w)"
  by (cases "ws_connect E (n_connect w)")
     (simp_all add: reconnect_succeeded [OF assms] reconnect_failed [OF assms])

text \<open>The world after the limit of failed attempts has been reached.\<close>

lemma reconnect_calls_gave_up:
  assumes "reconnect_attempts (self w) = 0"
    and "\<forall>i < nat (max_reconnect_attempts (self w)). ws_connect E (n_connect w + i) \<noteq> None"
  shows "m \<le> nat (max_reconnect_attempts (self w)) \<Longrightarrow>
           self (reconnect_calls E m w) = (self w)\<lparr>reconnect_attempts := int m\<rparr>
           \<and> n_connect (reconnect_calls E m w) = n_connect w + m"
    and "nat (max_reconnect_attempts (self w)) \<le> m \<Longrightarrow>
           self (reconnect_calls E m w) =
             (self w)\<lparr>reconnect_attempts := int (nat (max_reconnect_attempts (self w)))\<rparr>
           \<and> n_connect (reconnect_calls E m w) = n_connect w + nat (max_reconnect_attempts (self w))"
proof -
  let ?N = "nat (max_reconnect_attempts (self w))"
  show upto: "self (reconnect_calls E k w) = (self w)\<lparr>reconnect_attempts := int k\<rparr>
       \<and> n_connect (reconnect_calls E k w) = n_connect w + k" if "k \<le> ?N" for k
  proof (cases k)
    case 0
    with assms(1) show ?thesis by simp
  next
    case (Suc j)
    have 1: "reconnect_attempts (self w) + int k \<le> max_reconnect_attempts (self w)"
      using that assms(1) Suc by simp
    have 2: "\<forall>i<k. ws_connect E (n_connect w + i) \<noteq> None"
      using that assms(2) by simp
    from reconnect_calls_failed [OF 1 2] assms(1) show ?thesis
      by simp
  qed
  let ?wN = "reconnect_calls E ?N w"
  have exhausted: "\<not> reconnect_attempts (self ?wN) < max_reconnect_attempts (self ?wN)"
    using upto [of ?N] by simp
  show "self (reconnect_calls E m w) = (self w)\<lparr>reconnect_attempts := int ?N\<rparr>
       \<and> n_connect (reconnect_calls E m w) = n_connect w + ?N" if "?N \<le> m"
  proof -
    have "reconnect_calls E m w = reconnect_calls E (m - ?N) ?wN"
      using that reconnect_calls_add [of E ?N "m - ?N" w] by simp
    with reconnect_calls_exhausted [OF exhausted, of E "m - ?N"] upto [of ?N]
    show ?thesis by simp
  qed
qed

text \<open>
  Claim C4, as amended. Let the counter be zero and let the transport refuse the first
  \<open>N\<close> connection attempts, \<open>N\<close> being the limit \<^verbatim>\<open>max_reconnect_attempts\<close>. Then \<open>m\<close>
  calls of \<^verbatim>\<open>reconnect\<close> in a row make \<open>min m N\<close> connection attempts: \<open>N\<close> calls make
  \<open>N\<close> attempts and no number of calls makes one more. After \<open>N\<close> or more calls every call
  of \<^verbatim>\<open>reconnect\<close> returns \<^verbatim>\<open>False\<close> and only logs that the limit is reached, whatever
  the transport would answer. The client as a whole has not stopped: on the client that
  is not connected \<^verbatim>\<open>send_message\<close> still makes a connection attempt, whatever the
  counter; when that attempt succeeds the counter is zero again, and with a positive
  limit the next \<^verbatim>\<open>reconnect\<close> makes an attempt again.
\<close>

theorem gives_up_after_max_attempts:
  assumes "reconnect_attempts (self w) = 0"
    and "\<forall>i < nat (max_reconnect_attempts (self w)). ws_connect E (n_connect w + i) \<noteq> None"
  shows "n_connect (reconnect_calls E m w) = n_connect w + min m (nat (max_reconnect_attempts (self w)))
       \<and> (nat (max_reconnect_attempts (self w)) \<le> m \<longrightarrow>
            reconnect E' (reconnect_calls E m w) =
              (Inr False,
               (reconnect_calls E m w)\<lparr>trace := trace (reconnect_calls E m w) @
                  [Log ERROR Max_reconnection_attempts_reached]\<rparr>))
       \<and> (nat (max_reconnect_attempts (self w)) \<le> m \<and> not_connected (self w) \<longrightarrow>
            n_connect (snd (send_message E' t d (reconnect_calls E m w))) =
              Suc (n_connect (reconnect_calls E m w)))
       \<and> (nat (max_reconnect_attempts (self w)) \<le> m \<and> not_connected (self w)
            \<and> ws_connect E' (n_connect (reconnect_calls E m w)) = None \<longrightarrow>
            reconnect_attempts (self (snd (send_message E' t d (reconnect_calls E m w)))) = 0)
       \<and> (nat (max_reconnect_attempts (self w)) \<le> m \<and> not_connected (self w)
            \<and> ws_connect E' (n_connect (reconnect_calls E m w)) = None
            \<and> 0 < max_reconnect_attempts (self w) \<longrightarrow>
            n_connect (snd (reconnect E'' (snd (send_message E' t d (reconnect_calls E m w))))) =
              Suc (Suc (n_connect (reconnect_calls E m w))))"
proof -
  let ?N = "nat (max_reconnect_attempts (self w))"
  let ?W = "reconnect_calls E m w"
  note gave_up = reconnect_calls_gave_up [OF assms]
  have count: "n_connect ?W = n_connect w + min m ?N"
  proof (cases "m \<le> ?N")
    case True
    with gave_up(1) [OF True] show ?thesis by (simp add: min_def)
  next
    case False
    then have "?N \<le> m" by simp
    from gave_up(2) [OF this] False show ?thesis by (simp add: min_def)
  qed
  have stop: "reconnect E' ?W =
      (Inr False, ?W\<lparr>trace := trace ?W @ [Log ERROR Max_reconnection_attempts_reached]\<rparr>)"
    if "?N \<le> m"
  proof -
    have "\<not> reconnect_attempts (self ?W) < max_reconnect_attempts (self ?W)"
      using gave_up(2) [OF that] by simp
    then show ?thesis by (rule reconnect_exhausted)
  qed
  have nc: "not_connected (self ?W)" if "?N \<le> m" "not_connected (self w)"
    using gave_up(2) [OF that(1)] that(2) by (simp add: not_connected_def)
  have send: "n_connect (snd (send_message E' t d ?W)) = Suc (n_connect ?W)"
    if "?N \<le> m" "not_connected (self w)"
    by (rule send_message_attempts [OF nc [OF that]])
  have reset: "reconnect_attempts (self (snd (send_message E' t d ?W))) = 0"
    if "?N \<le> m" "not_connected (self w)" "ws_connect E' (n_connect ?W) = None"
    by (rule send_message_resets(1) [OF nc [OF that(1,2)] that(3)])
  have again: "n_connect (snd (reconnect E'' (snd (send_message E' t d ?W)))) = Suc (Suc (n_connect ?W))"
    if "?N \<le> m" "not_connected (self w)" "ws_connect E' (n_connect ?W) = None"
      "0 < max_reconnect_attempts (self w)"
  proof -
    let ?S = "snd (send_message E' t d ?W)"
    have "max_reconnect_attempts (self ?S) = max_reconnect_attempts (self w)"
      using send_message_resets(2) [OF nc [OF that(1,2)] that(3), of t d] gave_up(2) [OF that(1)]
      by simp
    with reset [OF that(1-3)] that(4)
    have "reconnect_attempts (self ?S) < max_reconnect_attempts (self ?S)"
      by simp
    from reconnect_counts [OF this, of E''] send [OF that(1,2)] show ?thesis
      by simp
  qed
  show ?thesis
  proof (intro conjI impI)
    show "n_connect ?W = n_connect w + min m ?N"
      by (rule count)
  next
    assume "?N \<le> m"
    then show "reconnect E' ?W =
        (Inr False, ?W\<lparr>trace := trace ?W @ [Log ERROR Max_reconnection_attempts_reached]\<rparr>)"
      by (rule stop)
  next
    assume "?N \<le> m \<and> not_connected (self w)"
    then show "n_connect (snd (send_message E' t d ?W)) = Suc (n_connect ?W)"
      using send by blast
  next
    assume "?N \<le> m \<and> not_connected (self w) \<and> ws_connect E' (n_connect ?W) = None"
    then show "reconnect_attempts (self (snd (send_message E' t d ?W))) = 0"
      using reset by blast
  next
    assume "?N \<le> m \<and> not_connected (self w) \<and> ws_connect E' (n_connect ?W) = None
        \<and> 0 < max_reconnect_attempts (self w)"
    then show "n_connect (snd (reconnect E'' (snd (send_message E' t d ?W)))) = Suc (Suc (n_connect ?W))"
      using again by blast
  qed
qed

text \<open>
  The claim as the specification words it (a terminal state after which no further
  attempt is made) fails on the client with a limit of three after three refused
  attempts: \<^verbatim>\<open>reconnect\<close> gives up, but the next \<^verbatim>\<open>send_message\<close> makes a fourth
  connection attempt, and with a transport that accepts it the counter is reset and
  \<^verbatim>\<open>reconnect\<close> attempts, and succeeds, again.
\<close>

theorem gave_up_is_not_terminal_counterexample:
  "n_connect (reconnect_calls env_refusing 3 fresh3) = 3
   \<and> fst (reconnect env_refusing (reconnect_calls env_refusing 3 fresh3)) = Inr False
   \<and> n_connect (snd (send_message env_refusing ''error'' JNull (reconnect_calls env_refusing 3 fresh3))) = 4
   \<and> reconnect_attempts (self (snd (send_message env_accepting ''error'' JNull
        (reconnect_calls env_refusing 3 fresh3)))) = 0
   \<and> n_connect (snd (reconnect env_accepting (snd (send_message env_accepting ''error'' JNull
        (reconnect_calls env_refusing 3 fresh3))))) = 5"
proof -
  let ?W = "reconnect_calls env_refusing 3 fresh3"
  have f: "reconnect_attempts (self fresh3) = 0" "max_reconnect_attempts (self fresh3) = 3"
    "n_connect fresh3 = 0" "not_connected (self fresh3)"
    by (simp_all add: fresh3_def fresh_def init_def not_connected_def)
  have h: "\<forall>i < nat (max_reconnect_attempts (self fresh3)). ws_connect env_refusing (n_connect fresh3 + i) \<noteq> None"
    by (simp add: env_refusing_def)
  have W: "self ?W = (self fresh3)\<lparr>reconnect_attempts := 3\<rparr>" "n_connect ?W = 3"
    using reconnect_calls_gave_up(2) [OF f(1) h, of 3] by (simp_all add: f)
  have ex: "\<not> reconnect_attempts (self ?W) < max_reconnect_attempts (self ?W)"
    by (simp add: W f)
  have nc: "not_connected (self ?W)"
    using f(4) by (simp add: W not_connected_def)
  have acc: "ws_connect env_accepting (n_connect ?W) = None"
    by (simp add: env_accepting_def)
  let ?S = "snd (send_message env_accepting ''error'' JNull ?W)"
  have S: "reconnect_attempts (self ?S) = 0" "max_reconnect_attempts (self ?S) = 3"
    "n_connect ?S = 4"
    using send_message_resets [OF nc acc, of "''error''" JNull]
      send_message_attempts [OF nc, of env_accepting "''error''" JNull]
    by (simp_all add: W f)
  have lt: "reconnect_attempts (self ?S) < max_reconnect_attempts (self ?S)"
    by (simp add: S)
  show ?thesis
    using send_message_attempts [OF nc, of env_refusing "''error''" JNull]
      reconnect_counts [OF lt, of env_accepting]
    by (simp add: W S reconnect_exhausted [OF ex])
qed

theorem gives_up_after_max_attempts_witness:
  "reconnect_attempts (self fresh3) = 0
   \<and> max_reconnect_attempts (self fresh3) = 3
   \<and> not_connected (self fresh3)
   \<and> ws_connect env_refusing (n_connect fresh3 + 0) \<noteq> None
   \<and> ws_connect env_refusing (n_connect fresh3 + 1) \<noteq> None
   \<and> ws_connect env_refusing (n_connect fresh3 + 2) \<noteq> None
   \<and> n_connect (reconnect_calls env_refusing 3 fresh3) = 3
   \<and> n_connect (reconnect_calls env_refusing 4 fresh3) = 3
   \<and> n_connect (reconnect_calls env_refusing 10 fresh3) = 3
   \<and> fst (reconnect env_accepting (reconnect_calls env_refusing 3 fresh3)) = Inr False
   \<and> n_connect (snd (reconnect env_accepting (reconnect_calls env_refusing 3 fresh3))) = 3
   \<and> ws_connect env_accepting (n_connect (reconnect_calls env_refusing 3 fresh3)) = None
   \<and> n_connect (snd (send_message env_accepting ''error'' JNull (reconnect_calls env_refusing 3 fresh3))) = 4
   \<and> reconnect_attempts (self (snd (send_message env_accepting ''error'' JNull
        (reconnect_calls env_refusing 3 fresh3)))) = 0
   \<and> n_connect (snd (reconnect env_accepting (snd (send_message env_accepting ''error'' JNull
        (reconnect_calls env_refusing 3 fresh3))))) = 5"
proof -
  have f: "reconnect_attempts (self fresh3) = 0" "max_reconnect_attempts (self fresh3) = 3"
    "n_connect fresh3 = 0" "not_connected (self fresh3)"
    by (simp_all add: fresh3_def fresh_def init_def not_connected_def)
  have h: "\<forall>i < nat (max_reconnect_attempts (self fresh3)). ws_connect env_refusing (n_connect fresh3 + i) \<noteq> None"
    by (simp add: env_refusing_def)
  have h4: "ws_connect env_refusing i \<noteq> None" for i
    by (simp add: env_refusing_def)
  have h5: "ws_connect env_accepting i = None" for i
    by (simp add: env_accepting_def)
  show ?thesis
    using h4 h5
      gives_up_after_max_attempts [OF f(1) h, of 3 env_accepting "''error''" JNull env_accepting]
      gives_up_after_max_attempts [OF f(1) h, of 4 env_accepting "''error''" JNull env_accepting]
      gives_up_after_max_attempts [OF f(1) h, of 10 env_accepting "''error''" JNull env_accepting]
    by (simp add: f)
qed

subsection \<open>The codec round trip\<close>

text \<open>
  Claim C6. For every envelope whose type and timestamp are strings and whose data is a
  value that stands for a Python object, decoding the text that encoding produces gives
  the envelope back.
\<close>

theorem codec_round_trip:
  assumes "valid_json data"
  shows "decode (encode (envelope message_type data timestamp)) =
           Inr (envelope message_type data timestamp)"
proof -
  have "valid_json (envelope message_type data timestamp)"
    using assms by (simp add: envelope_def)
  then show ?thesis
    by (rule decode_encode)
qed

theorem codec_round_trip_witness:
  "valid_json (JDict sample_detection)
   \<and> decode (encode (envelope ''license_plate_detected'' (JDict sample_detection) ''2024-01-01T00:00:00'')) =
       Inr (envelope ''license_plate_detected'' (JDict sample_detection) ''2024-01-01T00:00:00'')"
proof -
  have v: "valid_json (JDict sample_detection)"
    by (simp add: sample_detection_def)
  show ?thesis
    using v codec_round_trip [OF v, of "''license_plate_detected''" "''2024-01-01T00:00:00''"]
    by simp
qed

subsection \<open>Payloads are not validated\<close>



subsection \<open>The receive loop\<close>








subsection \<open>The end of the receive loop\<close>




subsection \<open>Frames that are not JSON\<close>



subsection \<open>Commands without a handler\<close>



subsection \<open>Disconnecting twice\<close>

lemma disconnect_open:
  assumes "websocket (self w) = Some ws" and "\<not> closed ws"
  shows "disconnect w =
     (Inr (), w\<lparr>self := (self w)\<lparr>websocket := Some (ws\<lparr>closed := True\<rparr>), running := False\<rparr>,
                trace := trace w @ [WsClose (conn_id ws), Log INFO Disconnected_from_server]\<rparr>)"
  using assms by (simp add: disconnect_def websocket_close_def prog_defs)

lemma disconnect_not_connected:
  assumes "not_connected (self w)"
  shows "disconnect w = (Inr (), w\<lparr>self := (self w)\<lparr>running := False\<rparr>\<rparr>)"
  using assms
  by (cases "websocket (self w)") (simp_all add: disconnect_def not_connected_def prog_defs)

lemma simple_disconnect_None:
  assumes "simple_websocket (self v) = None"
  shows "simple_disconnect v = (Inr (), v)"
  using assms by (simp add: simple_disconnect_def prog_defs)

lemma simple_disconnect_Some:
  assumes "simple_websocket (self v) = Some ws"
  shows "simple_disconnect v =
     (Inr (), v\<lparr>self := (self v)\<lparr>simple_websocket := Some (ws\<lparr>closed := True\<rparr>)\<rparr>,
                trace := trace v @ [WsClose (conn_id ws), Log INFO Disconnected_from_server]\<rparr>)"
  using assms by (simp add: simple_disconnect_def simple_websocket_close_def prog_defs)

text \<open>
  Claim C10, as amended. \<^verbatim>\<open>WebSocketClient.disconnect\<close> never raises; after one call
  \<^verbatim>\<open>running\<close> is \<^verbatim>\<open>False\<close> and the connection is absent or closed; a second call
  leaves the whole world, trace included, as the first call left it. A call on a client
  whose connection is absent or closed performs no transport call and writes no log
  record: all it does is to set \<^verbatim>\<open>running\<close> to \<^verbatim>\<open>False\<close>.
  \<^verbatim>\<open>SimpleLicensePlateClient.disconnect\<close>, whose class has no \<^verbatim>\<open>running\<close> flag, never
  raises either; after one call the connection is absent or closed; without a connection
  object it does nothing at all, and a second call leaves the client object as the first
  call left it.
\<close>

theorem disconnect_idempotent:
  "fst (disconnect w) = Inr ()
   \<and> \<not> running (self (snd (disconnect w)))
   \<and> not_connected (self (snd (disconnect w)))
   \<and> (not_connected (self w) \<longrightarrow> disconnect w = (Inr (), w\<lparr>self := (self w)\<lparr>running := False\<rparr>\<rparr>))
   \<and> disconnect (snd (disconnect w)) = (Inr (), snd (disconnect w))
   \<and> fst (simple_disconnect v) = Inr ()
   \<and> simple_not_connected (self (snd (simple_disconnect v)))
   \<and> (simple_websocket (self v) = None \<longrightarrow> simple_disconnect v = (Inr (), v))
   \<and> fst (simple_disconnect (snd (simple_disconnect v))) = Inr ()
   \<and> self (snd (simple_disconnect (snd (simple_disconnect v)))) = self (snd (simple_disconnect v))"
proof -
  have adv: "fst (disconnect w) = Inr ()
     \<and> \<not> running (self (snd (disconnect w)))
     \<and> not_connected (self (snd (disconnect w)))
     \<and> (not_connected (self w) \<longrightarrow> disconnect w = (Inr (), w\<lparr>self := (self w)\<lparr>running := False\<rparr>\<rparr>))
     \<and> disconnect (snd (disconnect w)) = (Inr (), snd (disconnect w))"
  proof (cases "not_connected (self w)")
    case True
    have again: "not_connected (self (w\<lparr>self := (self w)\<lparr>running := False\<rparr>\<rparr>))"
      using True by (simp add: not_connected_def)
    show ?thesis
      using True
      by (simp add: disconnect_not_connected [OF True] disconnect_not_connected [OF again])
         (simp add: not_connected_def)
  next
    case False
    then obtain ws where ws: "websocket (self w) = Some ws" "\<not> closed ws"
      by (auto simp add: not_connected_def split: option.splits)
    let ?w1 = "w\<lparr>self := (self w)\<lparr>websocket := Some (ws\<lparr>closed := True\<rparr>), running := False\<rparr>,
                trace := trace w @ [WsClose (conn_id ws), Log INFO Disconnected_from_server]\<rparr>"
    have again: "not_connected (self ?w1)"
      by (simp add: not_connected_def)
    show ?thesis
      using False
      by (simp add: disconnect_open [OF ws] disconnect_not_connected [OF again])
         (simp add: not_connected_def)
  qed
  have simple: "fst (simple_disconnect v) = Inr ()
     \<and> simple_not_connected (self (snd (simple_disconnect v)))
     \<and> (simple_websocket (self v) = None \<longrightarrow> simple_disconnect v = (Inr (), v))
     \<and> fst (simple_disconnect (snd (simple_disconnect v))) = Inr ()
     \<and> self (snd (simple_disconnect (snd (simple_disconnect v)))) = self (snd (simple_disconnect v))"
  proof (cases "simple_websocket (self v)")
    case None
    then show ?thesis
      by (simp add: simple_disconnect_None simple_not_connected_def)
  next
    case (Some ws)
    let ?v1 = "v\<lparr>self := (self v)\<lparr>simple_websocket := Some (ws\<lparr>closed := True\<rparr>)\<rparr>,
                trace := trace v @ [WsClose (conn_id ws), Log INFO Disconnected_from_server]\<rparr>"
    have again: "simple_websocket (self ?v1) = Some (ws\<lparr>closed := True\<rparr>)"
      by simp
    show ?thesis
      using Some
      by (simp add: simple_disconnect_Some [OF Some] simple_disconnect_Some [OF again]
            simple_not_connected_def)
  qed
  from adv simple show ?thesis by simp
qed

text \<open>
  The claim as stated (a second call on a client whose connection is already closed
  performs no close operation) fails for the simple client: its \<^verbatim>\<open>disconnect\<close> tests only
  whether a connection object is present, so the second call calls \<^verbatim>\<open>close\<close> on the
  closed connection and logs the disconnection once more.
\<close>

theorem second_disconnect_closes_again_counterexample:
  "simple_not_connected (self (snd (simple_disconnect simple_linked)))
   \<and> simple_disconnect (snd (simple_disconnect simple_linked)) =
       (Inr (),
        simple_linked\<lparr>self := (self simple_linked)\<lparr>simple_websocket := Some \<lparr>conn_id = 0, closed = True\<rparr>\<rparr>,
                      trace := [WsClose 0, Log INFO Disconnected_from_server,
                                WsClose 0, Log INFO Disconnected_from_server]\<rparr>)
   \<and> actions (trace (snd (simple_disconnect (snd (simple_disconnect simple_linked))))) =
       actions (trace (snd (simple_disconnect simple_linked))) @ [WsClose 0]"
proof -
  let ?v1 = "\<lparr>self = \<lparr>backend_url = ''ws://localhost:3001'',
                        simple_websocket = Some \<lparr>conn_id = 0, closed = True\<rparr>\<rparr>,
               n_connect = 1, n_send = 0, n_now = 0,
               trace = [WsClose 0, Log INFO Disconnected_from_server]\<rparr>"
  let ?v2 = "\<lparr>self = \<lparr>backend_url = ''ws://localhost:3001'',
                        simple_websocket = Some \<lparr>conn_id = 0, closed = True\<rparr>\<rparr>,
               n_connect = 1, n_send = 0, n_now = 0,
               trace = [WsClose 0, Log INFO Disconnected_from_server,
                        WsClose 0, Log INFO Disconnected_from_server]\<rparr>"
  have ws: "simple_websocket (self simple_linked) = Some \<lparr>conn_id = 0, closed = False\<rparr>"
    by (simp add: simple_linked_def)
  have s1: "simple_disconnect simple_linked = (Inr (), ?v1)"
    by (simp add: simple_disconnect_Some [OF ws]) (simp add: simple_linked_def)
  have ws1: "simple_websocket (self ?v1) = Some \<lparr>conn_id = 0, closed = True\<rparr>"
    by simp
  have s2: "simple_disconnect ?v1 = (Inr (), ?v2)"
    using simple_disconnect_Some [OF ws1] by simp
  show ?thesis
    unfolding s1 snd_conv s2
    by (simp add: simple_not_connected_def simple_linked_def)
qed

theorem disconnect_idempotent_witness:
  "\<not> not_connected (self linked)
   \<and> not_connected (self fresh)
   \<and> simple_websocket (self simple_fresh) = None
   \<and> fst (disconnect linked) = Inr ()
   \<and> \<not> running (self (snd (disconnect linked)))
   \<and> not_connected (self (snd (disconnect linked)))
   \<and> disconnect (snd (disconnect linked)) = (Inr (), snd (disconnect linked))
   \<and> disconnect fresh = (Inr (), fresh\<lparr>self := (self fresh)\<lparr>running := False\<rparr>\<rparr>)
   \<and> simple_disconnect simple_fresh = (Inr (), simple_fresh)
   \<and> simple_not_connected (self (snd (simple_disconnect simple_linked)))
   \<and> self (snd (simple_disconnect (snd (simple_disconnect simple_linked)))) =
       self (snd (simple_disconnect simple_linked))"
proof -
  have h1: "\<not> not_connected (self linked)"
    by (simp add: linked_def init_def not_connected_def)
  have h2: "not_connected (self fresh)"
    by (simp add: fresh_def init_def not_connected_def)
  have h3: "simple_websocket (self simple_fresh) = None"
    by (simp add: simple_fresh_def)
  have f: "trace fresh = []"
    by (simp add: fresh_def)
  show ?thesis
    using h1 h2 h3
      disconnect_idempotent [of linked simple_linked]
      disconnect_idempotent [of fresh simple_fresh]
    by (simp add: f)
qed

end
